theory Spec2Isabelle
  imports Main
begin

section \<open>Strings\<close>

text \<open>
  A JavaScript string is a sequence of UTF-16 code units. The transliteration table of
  \<open>slugify\<close> and the regular expressions of the services work on code units, so a
  string is modelled as the list of its code units.
\<close>

type_synonym jsstring = "int list"

definition js :: "string \<Rightarrow> jsstring" where
  \<comment> \<open>an ASCII literal as code units\<close>
  "js s = map of_char s"

definition hyphen :: int where
  "hyphen = 45"

definition is_space :: "int \<Rightarrow> bool" where
  \<comment> \<open>the class \<open>\s\<close>, which is also what \<open>trim()\<close> removes: WhiteSpace and LineTerminator\<close>
  "is_space c = (c \<in> {9, 10, 11, 12, 13, 32, 160, 5760, 8232, 8233, 8239, 8287, 12288, 65279}
                 \<or> (8192 \<le> c \<and> c \<le> 8202))"

definition is_upper :: "int \<Rightarrow> bool" where
  "is_upper c = (65 \<le> c \<and> c \<le> 90)"

definition is_lower :: "int \<Rightarrow> bool" where
  "is_lower c = (97 \<le> c \<and> c \<le> 122)"

definition is_digit :: "int \<Rightarrow> bool" where
  "is_digit c = (48 \<le> c \<and> c \<le> 57)"

definition is_word :: "int \<Rightarrow> bool" where
  \<comment> \<open>the class \<open>\w\<close> of a regular expression without the unicode flag: \<open>[A-Za-z0-9_]\<close>\<close>
  "is_word c = (is_upper c \<or> is_lower c \<or> is_digit c \<or> c = 95)"

definition truthy :: "jsstring option \<Rightarrow> bool" where
  \<comment> \<open>a value of type \<open>string | null | undefined\<close> in a condition\<close>
  "truthy v = (case v of None \<Rightarrow> False | Some s \<Rightarrow> s \<noteq> [])"

definition or_else :: "jsstring option \<Rightarrow> jsstring \<Rightarrow> jsstring" where
  \<comment> \<open>\<open>v || d\<close> where \<open>d\<close> is a string\<close>
  "or_else v d = (case v of None \<Rightarrow> d | Some s \<Rightarrow> if s = [] then d else s)"

definition trim :: "jsstring \<Rightarrow> jsstring" where
  "trim s = rev (dropWhile is_space (rev (dropWhile is_space s)))"

definition lower_unit :: "int \<Rightarrow> int" where
  "lower_unit c = (if is_upper c then c + 32 else c)"

definition toLowerCase :: "jsstring \<Rightarrow> jsstring" where
  \<comment> \<open>\<open>String.prototype.toLowerCase\<close> as it acts on ASCII text. The full Unicode case
      mapping belongs to the language, not to the repository: the functions below take
      the case mapping as the parameter \<open>lc\<close>, and this instance is used on ASCII inputs.\<close>
  "toLowerCase s = map lower_unit s"

section \<open>Regular-expression replacements\<close>

function replace_plus :: "(int \<Rightarrow> bool) \<Rightarrow> jsstring \<Rightarrow> jsstring \<Rightarrow> jsstring" where
  \<comment> \<open>\<open>s.replace(/[P]+/g, r)\<close>: every maximal run of characters of the class becomes \<open>r\<close>\<close>
  "replace_plus P r [] = []"
| "replace_plus P r (c # cs) =
     (if P c then r @ replace_plus P r (dropWhile P cs) else c # replace_plus P r cs)"
  by pat_completeness auto
termination
  by (relation "measure (\<lambda>(P, r, s). length s)")
     (auto simp: le_imp_less_Suc length_dropWhile_le)

function replace_hyphens :: "jsstring \<Rightarrow> jsstring" where
  \<comment> \<open>\<open>s.replace(/\-\-+/g, '-')\<close>: a run of two or more hyphens becomes one hyphen\<close>
  "replace_hyphens [] = []"
| "replace_hyphens (c # cs) =
     (if c = hyphen \<and> cs \<noteq> [] \<and> hd cs = hyphen
      then hyphen # replace_hyphens (dropWhile (\<lambda>d. d = hyphen) cs)
      else c # replace_hyphens cs)"
  by pat_completeness auto
termination
  by (relation "measure length") (auto simp: le_imp_less_Suc length_dropWhile_le)

definition replace_amp :: "jsstring \<Rightarrow> jsstring" where
  \<comment> \<open>\<open>s.replace(/&/g, '-and-')\<close>\<close>
  "replace_amp s = concat (map (\<lambda>c. if c = 38 then js ''-and-'' else [c]) s)"

definition trim_start_hyphens :: "jsstring \<Rightarrow> jsstring" where
  \<comment> \<open>\<open>s.replace(/^-+/, '')\<close>\<close>
  "trim_start_hyphens s = dropWhile (\<lambda>d. d = hyphen) s"

definition trim_end_hyphens :: "jsstring \<Rightarrow> jsstring" where
  \<comment> \<open>\<open>s.replace(/-+$/, '')\<close>\<close>
  "trim_end_hyphens s = rev (dropWhile (\<lambda>d. d = hyphen) (rev s))"

section \<open>slugify\<close>

definition slug_a :: "int list" where
  \<comment> \<open>the constant \<open>a\<close>: 73 accented Latin letters, then \<open>\<cdot> / _ , : ;\<close>\<close>
  "slug_a = [224, 225, 226, 228, 230, 227, 229, 257, 259, 261, 231, 263, 269, 273, 271,
     232, 233, 234, 235, 275, 279, 281, 283, 287, 501, 7719, 238, 239, 237, 299, 303, 236,
     322, 7743, 241, 324, 505, 328, 244, 246, 242, 243, 339, 248, 333, 245, 337, 7765, 341,
     345, 223, 347, 353, 351, 537, 357, 539, 251, 252, 249, 250, 363, 472, 367, 369, 371,
     7811, 7821, 255, 253, 382, 378, 380, 183, 47, 95, 44, 58, 59]"

definition slug_b :: "int list" where
  \<comment> \<open>the constant \<open>b\<close>: the replacement at the same index\<close>
  "slug_b = [97, 97, 97, 97, 97, 97, 97, 97, 97, 97, 99, 99, 99, 100, 100,
     101, 101, 101, 101, 101, 101, 101, 101, 103, 103, 104, 105, 105, 105, 105, 105, 105,
     108, 109, 110, 110, 110, 110, 111, 111, 111, 111, 111, 111, 111, 111, 111, 112, 114,
     114, 115, 115, 115, 115, 115, 116, 116, 117, 117, 117, 117, 117, 117, 117, 117, 117,
     119, 120, 121, 121, 122, 122, 122, 45, 45, 45, 45, 45, 45]"

fun indexOf :: "int list \<Rightarrow> int \<Rightarrow> nat option" where
  \<comment> \<open>\<open>a.indexOf(c)\<close>, with \<open>None\<close> for -1\<close>
  "indexOf [] c = None"
| "indexOf (x # xs) c = (if x = c then Some 0 else map_option Suc (indexOf xs c))"

definition charAt :: "int list \<Rightarrow> nat \<Rightarrow> jsstring" where
  \<comment> \<open>\<open>b.charAt(i)\<close>: the empty string out of range\<close>
  "charAt s i = (if i < length s then [s ! i] else [])"

definition replace_special :: "jsstring \<Rightarrow> jsstring" where
  \<comment> \<open>\<open>s.replace(p, c => b.charAt(a.indexOf(c)))\<close> where \<open>p\<close> matches any one character
      of \<open>a\<close>\<close>
  "replace_special s =
     concat (map (\<lambda>c. case indexOf slug_a c of None \<Rightarrow> [c] | Some i \<Rightarrow> charAt slug_b i) s)"

definition slugify :: "(jsstring \<Rightarrow> jsstring) \<Rightarrow> jsstring option \<Rightarrow> jsstring" where
  "slugify lc text =
     (case text of
        None \<Rightarrow> []
      | Some s \<Rightarrow>
          if s = [] then []
          else trim_end_hyphens (trim_start_hyphens (replace_hyphens
                 (replace_plus (\<lambda>c. \<not> (is_word c \<or> c = hyphen)) []
                   (replace_amp (replace_special
                     (replace_plus is_space [hyphen] (lc s))))))))"

subsection \<open>The shape of a slug\<close>

definition slug_char :: "int \<Rightarrow> bool" where
  "slug_char c = (is_lower c \<or> is_digit c \<or> c = hyphen)"

fun no_double_hyphen :: "jsstring \<Rightarrow> bool" where
  "no_double_hyphen (a # b # cs) = ((a \<noteq> hyphen \<or> b \<noteq> hyphen) \<and> no_double_hyphen (b # cs))"
| "no_double_hyphen cs = True"

definition is_slug :: "jsstring \<Rightarrow> bool" where
  "is_slug s = ((\<forall>c \<in> set s. slug_char c) \<and> no_double_hyphen s
                \<and> (s \<noteq> [] \<longrightarrow> hd s \<noteq> hyphen \<and> last s \<noteq> hyphen))"

definition slug_pipeline :: "jsstring \<Rightarrow> jsstring" where
  "slug_pipeline t = trim_end_hyphens (trim_start_hyphens (replace_hyphens
                 (replace_plus (\<lambda>c. \<not> (is_word c \<or> c = hyphen)) []
                   (replace_amp (replace_special
                     (replace_plus is_space [hyphen] t))))))"


section \<open>Rows\<close>

text \<open>
  \<open>MatrixifyRow\<close> is an object whose values are strings or numbers; a key that was never
  set is absent. The rows a service hands to \<open>Papa.unparse\<close> (with the fixed column list
  \<open>MATRIXIFY_HEADERS\<close>) are its result here: the serialisation itself is the library's.
\<close>

datatype cell = Str jsstring | Num int

type_synonym MatrixifyRow = "string \<rightharpoonup> cell"

definition MATRIXIFY_HEADERS :: "string list" where
  "MATRIXIFY_HEADERS = [''Handle'', ''Title'', ''Vendor'', ''Published'', ''Body (HTML)'',
     ''Tags'', ''Image Src'', ''Variant Image'', ''Image Position'', ''Option1 Name'',
     ''Option1 Value'', ''Variant SKU'', ''Variant Price'', ''Variant Grams'',
     ''Variant Inventory Qty'', ''Variant Requires Shipping'', ''Variant Taxable'',
     ''Gift Card'']"

datatype error =
    InvalidJsonFile           \<comment> \<open>\<open>Error\<close>: the JSON file is invalid\<close>
  | DataArrayNotFound         \<comment> \<open>\<open>Error\<close>: no product array in the field \<open>data\<close>\<close>
  | NoProcessableJsonData     \<comment> \<open>\<open>Error\<close>: no processable product data in the JSON file\<close>
  | TypeError                 \<comment> \<open>the language's \<open>TypeError\<close>, thrown on reading a property of
                                  \<open>null\<close> or calling a method a value does not have\<close>
  | CsvEmptyOrNoDataRows      \<comment> \<open>\<open>Error\<close>: the CSV file is empty or has no valid data row\<close>
  | NoProcessableCsvData      \<comment> \<open>\<open>Error\<close>: no processable product data in the CSV file\<close>
  | CsvEmptyOrInvalidHeader   \<comment> \<open>\<open>Error\<close>: the CSV file is empty or its header is invalid\<close>

definition replace_newlines :: "jsstring \<Rightarrow> jsstring \<Rightarrow> jsstring" where
  \<comment> \<open>\<open>s.replace(/\n/g, r)\<close>\<close>
  "replace_newlines r s = concat (map (\<lambda>c. if c = 10 then r else [c]) s)"

fun join :: "jsstring \<Rightarrow> jsstring list \<Rightarrow> jsstring" where
  \<comment> \<open>\<open>xs.join(sep)\<close>\<close>
  "join sep [] = []"
| "join sep [x] = x"
| "join sep (x # y # ys) = x @ sep @ join sep (y # ys)"

definition filter_Boolean :: "jsstring option list \<Rightarrow> jsstring list" where
  \<comment> \<open>\<open>xs.filter(Boolean)\<close> on strings that may be missing\<close>
  "filter_Boolean xs = map the (filter truthy xs)"

definition image_row :: "jsstring \<Rightarrow> jsstring \<Rightarrow> int \<Rightarrow> MatrixifyRow" where
  \<comment> \<open>the object \<open>{'Handle': handle, 'Image Src': url, 'Image Position': pos}\<close>\<close>
  "image_row handle url pos =
     [''Handle'' \<mapsto> Str handle, ''Image Src'' \<mapsto> Str url, ''Image Position'' \<mapsto> Num pos]"

definition caution_label :: jsstring where
  \<comment> \<open>\<open><br><br><strong>\<close>, the two characters U+6CE8 U+610F, \<open>:</strong>\<close> and a space\<close>
  "caution_label = js ''<br><br><strong>'' @ [27880, 24847] @ js '':</strong> ''"

definition material_label :: jsstring where
  \<comment> \<open>\<open><br><br><strong>\<close>, the two characters U+7D20 U+6750, \<open>:</strong>\<close> and a space\<close>
  "material_label = js ''<br><br><strong>'' @ [32032, 26448] @ js '':</strong> ''"

definition html_body :: "jsstring option \<Rightarrow> jsstring option \<Rightarrow> jsstring option \<Rightarrow> jsstring" where
  \<comment> \<open>\<open>bodyParts.join('')\<close> for the description, the caution and the material\<close>
  "html_body d c m =
     (if truthy d then replace_newlines (js ''<br>'') (the d) else [])
     @ (if truthy c then caution_label @ replace_newlines (js ''<br>'') (the c) else [])
     @ (if truthy m then material_label @ replace_newlines (js ''<br>'') (the m) else [])"

section \<open>JsonProcessorService\<close>

text \<open>
  Modelled from the spec: the type \<open>KadoaWorkflowProduct\<close> is declared in a file of the
  repository that is not at hand. The spec lists its fields (productId, productName,
  description, caution, material, color, size, fitLevel, brandName, mainImage,
  thumbnailImages[]); \<open>processJson\<close> treats every one as optional.
\<close>

record KadoaWorkflowProduct =
  productId :: "jsstring option"
  productName :: "jsstring option"
  description :: "jsstring option"
  caution :: "jsstring option"
  material :: "jsstring option"
  color :: "jsstring option"
  size :: "jsstring option"
  fitLevel :: "jsstring option"
  brandName :: "jsstring option"
  mainImage :: "jsstring option"
  thumbnailImages :: "jsstring list option"

datatype json_input =
    Unparsable                          \<comment> \<open>\<open>JSON.parse\<close> throws\<close>
  | NoDataArray                         \<comment> \<open>\<open>parsedJson.data\<close> is not an array\<close>
  | IllTypedData                        \<comment> \<open>\<open>parsedJson\<close> is \<open>null\<close>, or \<open>parsedJson.data\<close> is an
                                            array that holds \<open>null\<close> or a record whose description,
                                            caution or material is a truthy value without
                                            \<open>replace\<close>: the loop has no early exit, so it reaches
                                            that entry and the access throws\<close>
  | Data "KadoaWorkflowProduct list"    \<comment> \<open>\<open>parsedJson.data\<close>, an array of records whose fields
                                            are strings (a list of strings for the thumbnails)
                                            or missing\<close>

definition json_handle :: "(jsstring \<Rightarrow> jsstring) \<Rightarrow> KadoaWorkflowProduct \<Rightarrow> jsstring" where
  \<comment> \<open>\<open>this._slugify(p.productName) || p.productId || ''\<close>\<close>
  "json_handle lc p =
     (if slugify lc (productName p) \<noteq> [] then slugify lc (productName p)
      else or_else (productId p) [])"

definition productRow :: "(jsstring \<Rightarrow> jsstring) \<Rightarrow> KadoaWorkflowProduct \<Rightarrow> MatrixifyRow" where
  "productRow lc p =
     [''Handle'' \<mapsto> Str (json_handle lc p),
      ''Title'' \<mapsto> Str (or_else (productName p) []),
      ''Body (HTML)'' \<mapsto> Str (html_body (description p) (caution p) (material p)),
      ''Vendor'' \<mapsto> Str (or_else (brandName p) (js ''Your-Store'')),
      ''Tags'' \<mapsto> Str (join (js '', '') (filter_Boolean [color p, material p, fitLevel p])),
      ''Option1 Name'' \<mapsto> Str (js ''Size''),
      ''Option1 Value'' \<mapsto> Str (or_else (size p) (js ''Default Title'')),
      ''Variant SKU'' \<mapsto> Str (or_else (productId p) []),
      ''Variant Image'' \<mapsto> Str (or_else (mainImage p) []),
      ''Variant Price'' \<mapsto> Str (js ''0.00''),
      ''Variant Inventory Qty'' \<mapsto> Num 0,
      ''Variant Grams'' \<mapsto> Num 0,
      ''Variant Requires Shipping'' \<mapsto> Str (js ''TRUE''),
      ''Variant Taxable'' \<mapsto> Str (js ''TRUE''),
      ''Published'' \<mapsto> Str (js ''TRUE''),
      ''Gift Card'' \<mapsto> Str (js ''FALSE'')]"

definition hasImages :: "KadoaWorkflowProduct \<Rightarrow> bool" where
  \<comment> \<open>\<open>p.mainImage || (p.thumbnailImages && p.thumbnailImages.length > 0)\<close>\<close>
  "hasImages p =
     (truthy (mainImage p)
      \<or> (case thumbnailImages p of None \<Rightarrow> False | Some ts \<Rightarrow> 0 < length ts))"

fun push_thumbs :: "jsstring list \<Rightarrow> jsstring list \<Rightarrow> jsstring list" where
  \<comment> \<open>the \<open>forEach\<close> over the thumbnails: \<open>if (thumb && !allImages.includes(thumb))
      allImages.push(thumb)\<close>\<close>
  "push_thumbs allImages [] = allImages"
| "push_thumbs allImages (thumb # thumbs) =
     push_thumbs (if thumb \<noteq> [] \<and> thumb \<notin> set allImages then allImages @ [thumb]
                  else allImages) thumbs"

definition allImages :: "KadoaWorkflowProduct \<Rightarrow> jsstring list" where
  "allImages p =
     push_thumbs (if truthy (mainImage p) then [the (mainImage p)] else [])
       (case thumbnailImages p of None \<Rightarrow> [] | Some ts \<Rightarrow> ts)"

definition continuation_rows :: "jsstring \<Rightarrow> jsstring list \<Rightarrow> MatrixifyRow list" where
  \<comment> \<open>\<open>for (let i = 1; i < allImages.length; i++) rows.push({Handle, 'Image Src':
      allImages[i], 'Image Position': i + 1})\<close>\<close>
  "continuation_rows handle imgs =
     map (\<lambda>i. image_row handle (imgs ! i) (int i + 1)) [1 ..< length imgs]"

definition json_record_rows ::
  "(jsstring \<Rightarrow> jsstring) \<Rightarrow> jsstring set \<Rightarrow> KadoaWorkflowProduct \<Rightarrow> MatrixifyRow list" where
  \<comment> \<open>the rows one iteration of the loop pushes, given \<open>processedHandlesForImages\<close>\<close>
  "json_record_rows lc processed p =
     (if hasImages p \<and> json_handle lc p \<notin> processed
      then (if 0 < length (allImages p)
            then (productRow lc p)(''Image Src'' \<mapsto> Str (allImages p ! 0),
                                   ''Image Position'' \<mapsto> Num 1)
            else productRow lc p)
           # continuation_rows (json_handle lc p) (allImages p)
      else [productRow lc p])"

definition json_step ::
  "(jsstring \<Rightarrow> jsstring) \<Rightarrow> MatrixifyRow list \<times> jsstring set \<Rightarrow> KadoaWorkflowProduct
   \<Rightarrow> MatrixifyRow list \<times> jsstring set" where
  \<comment> \<open>one iteration of \<open>for (const p of data)\<close> on \<open>(rows, processedHandlesForImages)\<close>\<close>
  "json_step lc st p =
     (fst st @ json_record_rows lc (snd st) p,
      if hasImages p \<and> json_handle lc p \<notin> snd st then insert (json_handle lc p) (snd st)
      else snd st)"

definition processJson :: "(jsstring \<Rightarrow> jsstring) \<Rightarrow> json_input \<Rightarrow> error + MatrixifyRow list" where
  "processJson lc input =
     (case input of
        Unparsable \<Rightarrow> Inl InvalidJsonFile
      | NoDataArray \<Rightarrow> Inl DataArrayNotFound
      | IllTypedData \<Rightarrow> Inl TypeError
      | Data data \<Rightarrow>
          (let rows = fst (foldl (json_step lc) ([], {}) data)
           in if length rows = 0 then Inl NoProcessableJsonData else Inr rows))"

section \<open>CsvProcessorService\<close>

text \<open>
  A parsed CSV line (\<open>Papa.parse\<close> with \<open>header: true\<close>) is an object from column
  names to strings. The calls of the logging callback \<open>addLog\<close> are left out: they do
  not change the rows.
\<close>

type_synonym csv_record = "string \<rightharpoonup> jsstring"

definition COLUMN_MAP :: "(string \<times> string list) list" where
  "COLUMN_MAP =
     [(''product_id'', [''productID'', ''productId'', ''productId_1'']),
      (''name'', [''name'', ''productName'']),
      (''description'', [''description'']),
      (''caution'', [''caution'']),
      (''material'', [''material'']),
      (''main_image'', [''mainImage'', ''image'']),
      (''thumbnail_images'', [''thumbnailImages'']),
      (''color'', [''color'']),
      (''size'', [''size'']),
      (''fit'', [''fitLevel'']),
      (''brand'', [''brandName''])]"

fun first_present :: "csv_record \<Rightarrow> string list \<Rightarrow> jsstring option" where
  \<comment> \<open>the loop of \<open>getCol\<close>: the first column whose value is there and not blank\<close>
  "first_present row [] = None"
| "first_present row (colName # colNames) =
     (case row colName of
        None \<Rightarrow> first_present row colNames
      | Some v \<Rightarrow> if trim v \<noteq> [] then Some v else first_present row colNames)"

definition getCol :: "csv_record \<Rightarrow> string \<Rightarrow> jsstring option" where
  \<comment> \<open>every call passes a key of \<open>COLUMN_MAP\<close>; for another key the source would throw
      a TypeError, which no call can reach\<close>
  "getCol row key =
     (case map_of COLUMN_MAP key of None \<Rightarrow> None | Some colNames \<Rightarrow> first_present row colNames)"

fun split_on :: "(int \<Rightarrow> bool) \<Rightarrow> jsstring \<Rightarrow> jsstring list" where
  \<comment> \<open>\<open>s.split(/[P]/)\<close>\<close>
  "split_on P [] = [[]]"
| "split_on P (c # cs) =
     (if P c then [] # split_on P cs
      else (case split_on P cs of [] \<Rightarrow> [[c]] | x # xs \<Rightarrow> (c # x) # xs))"

definition csv_title :: "csv_record \<Rightarrow> jsstring \<Rightarrow> jsstring" where
  \<comment> \<open>\<open>`${name} - ${styleNo}`\<close> with \<open>name = getCol(r, 'name') || ''\<close>\<close>
  "csv_title r styleNo = or_else (getCol r ''name'') [] @ js '' - '' @ styleNo"

definition csv_handle :: "(jsstring \<Rightarrow> jsstring) \<Rightarrow> csv_record \<Rightarrow> jsstring \<Rightarrow> jsstring" where
  \<comment> \<open>\<open>slugify(title) || slugify(styleNo)\<close>\<close>
  "csv_handle lc r styleNo =
     (if slugify lc (Some (csv_title r styleNo)) \<noteq> [] then slugify lc (Some (csv_title r styleNo))
      else slugify lc (Some styleNo))"

definition csv_thumbs :: "csv_record \<Rightarrow> jsstring list" where
  \<comment> \<open>\<open>thumbStr.split(/[;,]/).map(u => u.trim()).filter(Boolean)\<close>, nothing when
      \<open>thumbStr\<close> is null\<close>
  "csv_thumbs r =
     (case getCol r ''thumbnail_images'' of
        None \<Rightarrow> []
      | Some thumbStr \<Rightarrow>
          filter (\<lambda>u. u \<noteq> []) (map trim (split_on (\<lambda>c. c = 59 \<or> c = 44) thumbStr)))"

definition mainVariantRow :: "(jsstring \<Rightarrow> jsstring) \<Rightarrow> csv_record \<Rightarrow> jsstring \<Rightarrow> MatrixifyRow" where
  \<comment> \<open>\<open>{...baseRow, 'Image Src': mainImg, 'Variant Image': mainImg, 'Image Position': 1}\<close>\<close>
  "mainVariantRow lc r styleNo =
     [''Handle'' \<mapsto> Str (csv_handle lc r styleNo),
      ''Title'' \<mapsto> Str (csv_title r styleNo),
      ''Body (HTML)'' \<mapsto>
         Str (html_body (getCol r ''description'') (getCol r ''caution'') (getCol r ''material'')),
      ''Vendor'' \<mapsto> Str (or_else (getCol r ''brand'') (js ''Your-Store'')),
      ''Tags'' \<mapsto> Str (join (js '', '')
         (filter_Boolean [getCol r ''color'', getCol r ''material'', getCol r ''fit''])),
      ''Option1 Name'' \<mapsto> Str (js ''Size''),
      ''Option1 Value'' \<mapsto> Str (or_else (getCol r ''size'') (js ''Default Title'')),
      ''Variant SKU'' \<mapsto> Str styleNo,
      ''Variant Price'' \<mapsto> Str (js ''0.00''),
      ''Variant Inventory Qty'' \<mapsto> Num 0,
      ''Variant Grams'' \<mapsto> Num 0,
      ''Variant Requires Shipping'' \<mapsto> Str (js ''TRUE''),
      ''Variant Taxable'' \<mapsto> Str (js ''TRUE''),
      ''Published'' \<mapsto> Str (js ''TRUE''),
      ''Gift Card'' \<mapsto> Str (js ''FALSE''),
      ''Image Src'' \<mapsto> Str (or_else (getCol r ''main_image'') []),
      ''Variant Image'' \<mapsto> Str (or_else (getCol r ''main_image'') []),
      ''Image Position'' \<mapsto> Num 1]"

definition sub_image_rows :: "jsstring \<Rightarrow> jsstring list \<Rightarrow> MatrixifyRow list" where
  \<comment> \<open>\<open>thumbs.forEach((url, index) => outputRows.push({Handle, 'Image Src': url,
      'Image Position': index + 2}))\<close>\<close>
  "sub_image_rows handle thumbs =
     map (\<lambda>index. image_row handle (thumbs ! index) (int index + 2)) [0 ..< length thumbs]"

definition csv_record_rows ::
  "(jsstring \<Rightarrow> jsstring) \<Rightarrow> jsstring set \<Rightarrow> csv_record \<Rightarrow> MatrixifyRow list" where
  \<comment> \<open>the rows one iteration of the loop pushes, given \<open>seenSkus\<close>; none when the
      iteration ends at a \<open>continue\<close>\<close>
  "csv_record_rows lc seenSkus r =
     (case getCol r ''product_id'' of
        None \<Rightarrow> []
      | Some styleNo \<Rightarrow>
          if styleNo = [] then []
          else if styleNo \<in> seenSkus then []
          else if csv_handle lc r styleNo = [] then []
          else mainVariantRow lc r styleNo
               # sub_image_rows (csv_handle lc r styleNo) (csv_thumbs r))"

definition csv_seen :: "(jsstring \<Rightarrow> jsstring) \<Rightarrow> jsstring set \<Rightarrow> csv_record \<Rightarrow> jsstring set" where
  \<comment> \<open>\<open>seenSkus\<close> after the iteration: \<open>seenSkus.add(styleNo)\<close> stands after the three
      \<open>continue\<close>s\<close>
  "csv_seen lc seenSkus r =
     (case getCol r ''product_id'' of
        None \<Rightarrow> seenSkus
      | Some styleNo \<Rightarrow>
          if styleNo = [] then seenSkus
          else if styleNo \<in> seenSkus then seenSkus
          else if csv_handle lc r styleNo = [] then seenSkus
          else insert styleNo seenSkus)"

definition csv_step ::
  "(jsstring \<Rightarrow> jsstring) \<Rightarrow> MatrixifyRow list \<times> jsstring set \<Rightarrow> csv_record
   \<Rightarrow> MatrixifyRow list \<times> jsstring set" where
  \<comment> \<open>one iteration of \<open>for (const r of inputRows)\<close> on \<open>(outputRows, seenSkus)\<close>\<close>
  "csv_step lc st r = (fst st @ csv_record_rows lc (snd st) r, csv_seen lc (snd st) r)"

definition processCsv :: "(jsstring \<Rightarrow> jsstring) \<Rightarrow> csv_record list \<Rightarrow> error + MatrixifyRow list" where
  "processCsv lc inputRows =
     (if length inputRows = 0 then Inl CsvEmptyOrNoDataRows
      else (let outputRows = fst (foldl (csv_step lc) ([], {}) inputRows)
            in if length outputRows = 0 then Inl NoProcessableCsvData else Inr outputRows))"

fun csv_groups ::
  "(jsstring \<Rightarrow> jsstring) \<Rightarrow> jsstring set \<Rightarrow> csv_record list \<Rightarrow> MatrixifyRow list list" where
  \<comment> \<open>the loop again, keeping apart what each record contributes (see \<open>csv_groups_concat\<close>)\<close>
  "csv_groups lc seenSkus [] = []"
| "csv_groups lc seenSkus (r # rs) =
     csv_record_rows lc seenSkus r # csv_groups lc (csv_seen lc seenSkus r) rs"

section \<open>ScraperService\<close>

text \<open>
  \<open>ScrapedProductData\<close> is what the extraction call returns; the call itself is outside
  the model, and \<open>processUrlAndHtml\<close> is modelled from the extracted data on.
\<close>

record ScrapedProductData =
  s_productName :: jsstring
  s_description :: jsstring
  s_sku :: jsstring
  s_vendor :: jsstring
  s_price :: jsstring
  s_mainImage :: jsstring
  s_thumbnailImages :: "jsstring list option"
  s_size :: "jsstring option"
  s_color :: "jsstring option"
  s_material :: "jsstring option"

definition scraper_title :: "ScrapedProductData \<Rightarrow> jsstring" where
  \<comment> \<open>\<open>`${extractedData.productName} - ${extractedData.sku}`\<close>\<close>
  "scraper_title d = s_productName d @ js '' - '' @ s_sku d"

definition scraper_handle :: "(jsstring \<Rightarrow> jsstring) \<Rightarrow> ScrapedProductData \<Rightarrow> jsstring" where
  "scraper_handle lc d = slugify lc (Some (scraper_title d))"

definition scraper_allImages :: "ScrapedProductData \<Rightarrow> jsstring list" where
  \<comment> \<open>\<open>[mainImage, ...thumbnails].filter(Boolean)\<close> with
      \<open>thumbnails = extractedData.thumbnailImages || []\<close>\<close>
  "scraper_allImages d =
     filter (\<lambda>u. u \<noteq> [])
       (s_mainImage d # (case s_thumbnailImages d of None \<Rightarrow> [] | Some ts \<Rightarrow> ts))"

definition scraper_mainVariantRow :: "(jsstring \<Rightarrow> jsstring) \<Rightarrow> ScrapedProductData \<Rightarrow> MatrixifyRow" where
  "scraper_mainVariantRow lc d =
     [''Handle'' \<mapsto> Str (scraper_handle lc d),
      ''Title'' \<mapsto> Str (scraper_title d),
      ''Body (HTML)'' \<mapsto> Str (s_description d),
      ''Vendor'' \<mapsto> Str (s_vendor d),
      ''Tags'' \<mapsto> Str (join (js '', '')
         (filter_Boolean [Some (s_vendor d), s_material d, s_color d])),
      ''Option1 Name'' \<mapsto> Str (js ''Size''),
      ''Option1 Value'' \<mapsto> Str (or_else (s_size d) (js ''Default Title'')),
      ''Variant SKU'' \<mapsto> Str (s_sku d),
      ''Variant Price'' \<mapsto>
         Str (or_else (Some (filter (\<lambda>c. is_digit c \<or> c = 46) (s_price d))) (js ''0.00'')),
      ''Variant Inventory Qty'' \<mapsto> Num 0,
      ''Variant Grams'' \<mapsto> Num 0,
      ''Variant Requires Shipping'' \<mapsto> Str (js ''TRUE''),
      ''Variant Taxable'' \<mapsto> Str (js ''TRUE''),
      ''Published'' \<mapsto> Str (js ''TRUE''),
      ''Gift Card'' \<mapsto> Str (js ''FALSE''),
      ''Image Src'' \<mapsto> Str (s_mainImage d),
      ''Variant Image'' \<mapsto> Str (s_mainImage d),
      ''Image Position'' \<mapsto> Num 1]"

definition processUrlAndHtml :: "(jsstring \<Rightarrow> jsstring) \<Rightarrow> ScrapedProductData \<Rightarrow> MatrixifyRow list" where
  \<comment> \<open>the rows built after the extraction: the main variant row, then one row for each
      of \<open>allImages[1]\<close>, \<open>allImages[2]\<close>, ...\<close>
  "processUrlAndHtml lc d =
     scraper_mainVariantRow lc d # continuation_rows (scraper_handle lc d) (scraper_allImages d)"

section \<open>ShopifyProcessorService\<close>

text \<open>
  Modelled from the spec: the type \<open>ShopifyInputRow\<close> is declared in a file of the
  repository that is not at hand. The rows come from \<open>Papa.parse\<close> with
  \<open>header: true\<close> and use the output header vocabulary: an object from column names
  to strings.
\<close>

type_synonym ShopifyInputRow = "string \<rightharpoonup> jsstring"

definition nonblank :: "jsstring option \<Rightarrow> bool" where
  \<comment> \<open>\<open>v && String(v).trim() !== ''\<close>\<close>
  "nonblank v = (case v of None \<Rightarrow> False | Some s \<Rightarrow> s \<noteq> [] \<and> trim s \<noteq> [])"

definition fill_column :: "string \<Rightarrow> jsstring \<Rightarrow> ShopifyInputRow \<Rightarrow> jsstring \<times> ShopifyInputRow" where
  \<comment> \<open>one of the three \<open>if\<close>s of the forward fill: the remembered value after it, and the row\<close>
  "fill_column key lastValue newRow =
     (if nonblank (newRow key) then (the (newRow key), newRow)
      else (lastValue, newRow(key \<mapsto> lastValue)))"

fun forward_fill ::
  "jsstring \<times> jsstring \<times> jsstring \<Rightarrow> ShopifyInputRow list \<Rightarrow> ShopifyInputRow list" where
  \<comment> \<open>\<open>rows.map(...)\<close> with the variables \<open>lastTitle\<close>, \<open>lastVendor\<close>,
      \<open>lastOption1Name\<close> of the enclosing function\<close>
  "forward_fill remembered [] = []"
| "forward_fill (lastTitle, lastVendor, lastOption1Name) (row # rows) =
     (let (lastTitle', row1) = fill_column ''Title'' lastTitle row;
          (lastVendor', row2) = fill_column ''Vendor'' lastVendor row1;
          (lastOption1Name', row3) = fill_column ''Option1 Name'' lastOption1Name row2
      in row3 # forward_fill (lastTitle', lastVendor', lastOption1Name') rows)"

definition defaults :: "(string \<times> jsstring) list" where
  "defaults =
     [(''Vendor'', js ''Your-Store''),
      (''Published'', js ''TRUE''),
      (''Option1 Name'', js ''Title''),
      (''Option1 Value'', js ''Default Title''),
      (''Variant Grams'', js ''0''),
      (''Variant Inventory Policy'', js ''deny''),
      (''Variant Fulfillment Service'', js ''manual''),
      (''Variant Inventory Qty'', js ''0''),
      (''Variant Price'', js ''0''),
      (''Variant Requires Shipping'', js ''TRUE''),
      (''Variant Taxable'', js ''TRUE''),
      (''Gift Card'', js ''FALSE''),
      (''Body (HTML)'', []),
      (''Tags'', [])]"

definition apply_default :: "string \<times> jsstring \<Rightarrow> ShopifyInputRow \<Rightarrow> ShopifyInputRow" where
  \<comment> \<open>the body of \<open>for (const key in defaults)\<close>\<close>
  "apply_default kd newRow =
     (case newRow (fst kd) of
        None \<Rightarrow> newRow(fst kd \<mapsto> snd kd)
      | Some v \<Rightarrow> if trim v = [] then newRow(fst kd \<mapsto> snd kd) else newRow)"

definition set_defaults :: "ShopifyInputRow \<Rightarrow> ShopifyInputRow option" where
  \<comment> \<open>the second \<open>rows.map\<close>: \<open>null\<close> for a row without Handle\<close>
  "set_defaults row =
     (if nonblank (row ''Handle'') then Some (fold apply_default defaults row) else None)"

definition shopify_processCsv :: "ShopifyInputRow list \<Rightarrow> error + ShopifyInputRow list option" where
  \<comment> \<open>\<open>ShopifyProcessorService.processCsv\<close>: \<open>parseCsv\<close> rejects an empty file; when no
      row is left the result is \<open>{ generatedCsvString: null }\<close>, here \<open>Inr None\<close>\<close>
  "shopify_processCsv rows =
     (if length rows = 0 then Inl CsvEmptyOrInvalidHeader
      else (let processedRows = List.map_filter set_defaults (forward_fill ([], [], []) rows)
            in if length processedRows = 0 then Inr None else Inr (Some processedRows)))"

section \<open>DataExtractorService\<close>

record RawExtractedData =
  e_productId :: "jsstring option"
  e_productName :: "jsstring option"
  e_description :: "jsstring option"
  e_caution :: "jsstring option"
  e_color :: "jsstring option"
  e_material :: "jsstring option"
  e_vendor :: "jsstring option"
  e_mainImage :: "jsstring option"

fun decimal :: "nat \<Rightarrow> jsstring" where
  \<comment> \<open>a number in a template string\<close>
  "decimal n = (if n < 10 then [48 + int n] else decimal (n div 10) @ [48 + int (n mod 10)])"

definition handle_char :: "int \<Rightarrow> bool" where
  \<comment> \<open>the characters the handle keeps: \<open>a-z\<close>, \<open>0-9\<close>, \<open>-\<close> and the ranges U+3000-303F,
      U+3040-309F, U+30A0-30FF, U+FF00-FF9F, U+4E00-9FAF, U+3400-4DBF\<close>
  "handle_char c =
     (is_lower c \<or> is_digit c \<or> c = hyphen
      \<or> (12288 \<le> c \<and> c \<le> 12351) \<or> (12352 \<le> c \<and> c \<le> 12447)
      \<or> (12448 \<le> c \<and> c \<le> 12543) \<or> (65280 \<le> c \<and> c \<le> 65439)
      \<or> (19968 \<le> c \<and> c \<le> 40879) \<or> (13312 \<le> c \<and> c \<le> 19903))"

definition createHandle :: "nat \<Rightarrow> (jsstring \<Rightarrow> jsstring) \<Rightarrow> jsstring \<Rightarrow> jsstring \<Rightarrow> jsstring" where
  \<comment> \<open>\<open>now\<close> is what \<open>Date.now()\<close> returns at the call\<close>
  "createHandle now lc name colour =
     (if name = [] \<and> colour = [] then js ''product-'' @ decimal now
      else filter handle_char
             (replace_plus is_space [hyphen] (lc (trim (name @ [32] @ colour)))))"

definition extracted_handle :: "nat \<Rightarrow> (jsstring \<Rightarrow> jsstring) \<Rightarrow> RawExtractedData \<Rightarrow> jsstring" where
  \<comment> \<open>\<open>this.createHandle(extracted.productName || 'product', extracted.color || '')\<close>\<close>
  "extracted_handle now lc e =
     createHandle now lc (or_else (e_productName e) (js ''product'')) (or_else (e_color e) [])"

definition extracted_body :: "RawExtractedData \<Rightarrow> jsstring" where
  \<comment> \<open>\<open>`${descriptionHtml}\n${cautionHtml}`.trim()\<close>; the caution's label is
      U+3010 U+3054 U+6CE8 U+610F U+3011\<close>
  "extracted_body e =
     trim ((if truthy (e_description e)
            then js ''<p>'' @ replace_newlines (js ''<br />'') (the (e_description e)) @ js ''</p>''
            else [])
           @ [10]
           @ (if truthy (e_caution e)
              then js ''<p><strong>'' @ [12304, 12372, 27880, 24847, 12305] @ js ''</strong><br />''
                   @ replace_newlines (js ''<br />'') (the (e_caution e)) @ js ''</p>''
              else []))"

definition shopifyData :: "nat \<Rightarrow> (jsstring \<Rightarrow> jsstring) \<Rightarrow> RawExtractedData \<Rightarrow> MatrixifyRow" where
  \<comment> \<open>what \<open>processText\<close> returns once the extraction has given an object\<close>
  "shopifyData now lc e =
     [''Handle'' \<mapsto> Str (extracted_handle now lc e),
      ''Title'' \<mapsto> Str (trim (or_else (e_productName e) [] @ [32] @ or_else (e_color e) [])),
      ''Body (HTML)'' \<mapsto> Str (extracted_body e),
      ''Vendor'' \<mapsto> Str (or_else (e_vendor e) []),
      ''Tags'' \<mapsto> Str (join (js '', '')
         (filter_Boolean [e_vendor e, e_material e, e_productName e])),
      ''Published'' \<mapsto> Str (js ''TRUE''),
      ''Option1 Name'' \<mapsto> Str [12459, 12521, 12540],
      ''Option1 Value'' \<mapsto> Str (or_else (e_color e) []),
      ''Variant SKU'' \<mapsto> Str (or_else (e_productId e) []),
      ''Variant Price'' \<mapsto> Str (js ''0''),
      ''Image Src'' \<mapsto> Str (or_else (e_mainImage e) []),
      ''Status'' \<mapsto> Str (js ''active''),
      ''Variant Inventory Policy'' \<mapsto> Str (js ''deny''),
      ''Variant Fulfillment Service'' \<mapsto> Str (js ''manual''),
      ''Variant Requires Shipping'' \<mapsto> Str (js ''TRUE''),
      ''Variant Taxable'' \<mapsto> Str (js ''TRUE'')]"

section \<open>Specification-level notions and example inputs\<close>

definition first_occurrences :: "'a list \<Rightarrow> 'a list" where
  \<comment> \<open>a list without its repetitions: of equal entries the earliest stays\<close>
  "first_occurrences xs = rev (remdups (rev xs))"

definition image_candidates :: "KadoaWorkflowProduct \<Rightarrow> jsstring list" where
  \<comment> \<open>\<open>mainImage\<close> followed by \<open>thumbnailImages\<close>, as they stand in the record\<close>
  "image_candidates p =
     (case mainImage p of None \<Rightarrow> [] | Some m \<Rightarrow> [m])
     @ (case thumbnailImages p of None \<Rightarrow> [] | Some ts \<Rightarrow> ts)"

definition column :: "string \<Rightarrow> (string \<rightharpoonup> 'v) list \<Rightarrow> 'v list" where
  \<comment> \<open>the values of one column, over the rows that set it\<close>
  "column key rows = List.map_filter (\<lambda>row. row key) rows"

definition csv_unprocessable :: "(jsstring \<Rightarrow> jsstring) \<Rightarrow> csv_record \<Rightarrow> bool" where
  \<comment> \<open>no business key, or no handle can be made for the record\<close>
  "csv_unprocessable lc r =
     (case getCol r ''product_id'' of
        None \<Rightarrow> True
      | Some styleNo \<Rightarrow> styleNo = [] \<or> csv_handle lc r styleNo = [])"

definition no_product :: KadoaWorkflowProduct where
  "no_product = \<lparr>productId = None, productName = None, description = None, caution = None,
     material = None, color = None, size = None, fitLevel = None, brandName = None,
     mainImage = None, thumbnailImages = None\<rparr>"

definition tuxedo :: KadoaWorkflowProduct where
  \<comment> \<open>the record of the end-to-end example\<close>
  "tuxedo = no_product\<lparr>productId := Some (js ''207''), productName := Some (js ''TUXEDO''),
     mainImage := Some (js ''http://x/1.jpg''),
     thumbnailImages := Some [js ''http://x/2.jpg'', js ''http://x/1.jpg'']\<rparr>"

definition tuxedo_plain :: KadoaWorkflowProduct where
  \<comment> \<open>a record of the same name without any image\<close>
  "tuxedo_plain = no_product\<lparr>productId := Some (js ''206''), productName := Some (js ''TUXEDO'')\<rparr>"

definition csv_tuxedo :: csv_record where
  \<comment> \<open>a CSV line whose thumbnail column repeats the main image\<close>
  "csv_tuxedo = [''productId'' \<mapsto> js ''207'', ''productName'' \<mapsto> js ''TUXEDO'',
     ''mainImage'' \<mapsto> js ''http://x/1.jpg'', ''thumbnailImages'' \<mapsto> js ''http://x/1.jpg'']"

definition csv_plain :: csv_record where
  \<comment> \<open>a CSV line with no image column\<close>
  "csv_plain = [''productId'' \<mapsto> js ''207'', ''productName'' \<mapsto> js ''TUXEDO'']"

definition csv_blank :: csv_record where
  \<comment> \<open>a CSV line whose product id is blank\<close>
  "csv_blank = [''productId'' \<mapsto> js '' '', ''productName'' \<mapsto> js ''TUXEDO'']"

definition csv_slash :: csv_record where
  "csv_slash = [''productId'' \<mapsto> js ''207/A'']"

definition csv_dash :: csv_record where
  "csv_dash = [''productId'' \<mapsto> js ''207-A'']"

definition csv_kanji :: csv_record where
  \<comment> \<open>a CSV line whose product id is the two characters U+65E5 U+672C, without a name\<close>
  "csv_kanji = [''productId'' \<mapsto> [26085, 26412]]"

definition csv_kanji_dress :: csv_record where
  \<comment> \<open>a later line with the same product id and a name\<close>
  "csv_kanji_dress = [''productId'' \<mapsto> [26085, 26412], ''productName'' \<mapsto> js ''Dress'']"

definition scraped_tuxedo :: ScrapedProductData where
  "scraped_tuxedo = \<lparr>s_productName = js ''TUXEDO'', s_description = js ''<p>Classic</p>'',
     s_sku = js ''207'', s_vendor = js ''WITH A WISH'', s_price = js ''107800'',
     s_mainImage = js ''http://x/1.jpg'',
     s_thumbnailImages = Some [js ''http://x/2.jpg'', js ''http://x/1.jpg''],
     s_size = None, s_color = None, s_material = None\<rparr>"

definition scraped_plain :: ScrapedProductData where
  "scraped_plain = scraped_tuxedo\<lparr>s_mainImage := [], s_thumbnailImages := None\<rparr>"

definition shopify_rows :: "ShopifyInputRow list" where
  \<comment> \<open>the three rows of the forward-fill example\<close>
  "shopify_rows =
     [[''Title'' \<mapsto> js ''A'', ''Vendor'' \<mapsto> js ''V''],
      [''Title'' \<mapsto> [], ''Vendor'' \<mapsto> []],
      [''Title'' \<mapsto> js ''B'', ''Vendor'' \<mapsto> []]]"

definition extracted_tuxedo :: RawExtractedData where
  "extracted_tuxedo = \<lparr>e_productId = Some (js ''207''), e_productName = Some (js ''TUXEDO''),
     e_description = None, e_caution = None, e_color = Some (js ''Off White''),
     e_material = None, e_vendor = None, e_mainImage = None\<rparr>"

definition csv_expansion :: "(jsstring \<Rightarrow> jsstring) \<Rightarrow> csv_record \<Rightarrow> MatrixifyRow list" where
  \<comment> \<open>the rows of one record on its own: its main variant row, then its sub-image rows\<close>
  "csv_expansion lc r =
     mainVariantRow lc r (or_else (getCol r ''product_id'') [])
     # sub_image_rows (csv_handle lc r (or_else (getCol r ''product_id'') [])) (csv_thumbs r)"

definition rows_of :: "error + MatrixifyRow list \<Rightarrow> MatrixifyRow list" where
  \<comment> \<open>the rows of a run; none when it failed\<close>
  "rows_of result = (case result of Inl e \<Rightarrow> [] | Inr rows \<Rightarrow> rows)"

definition nonblank_values :: "string \<Rightarrow> ShopifyInputRow list \<Rightarrow> jsstring list" where
  \<comment> \<open>the non-blank cells of a column, from the top\<close>
  "nonblank_values key rows =
     List.map_filter (\<lambda>row. if nonblank (row key) then row key else None) rows"

definition last_nonblank :: "string \<Rightarrow> jsstring \<Rightarrow> ShopifyInputRow list \<Rightarrow> jsstring" where
  \<comment> \<open>the last non-blank value of a column in the rows, or \<open>initial\<close> when every cell of
      the column is blank\<close>
  "last_nonblank key initial rows =
     (if nonblank_values key rows = [] then initial else last (nonblank_values key rows))"

definition tuxedo_again :: KadoaWorkflowProduct where
  \<comment> \<open>a later record of the same name, with the same images, under another product id\<close>
  "tuxedo_again = tuxedo\<lparr>productId := Some (js ''208'')\<rparr>"

definition shopify_rows4 :: "ShopifyInputRow list" where
  \<comment> \<open>the three rows of the example, then a row whose Title is a space and whose Vendor
      is missing\<close>
  "shopify_rows4 = shopify_rows @ [[''Title'' \<mapsto> js '' '', ''Handle'' \<mapsto> js ''h'']]"

section \<open>Properties of slugify\<close>

lemma replace_plus_id: "\<forall>c \<in> set s. \<not> P c \<Longrightarrow> replace_plus P r s = s"
  by (induction s) auto

lemma set_replace_plus: "set (replace_plus P r s) \<subseteq> set s \<union> set r"
proof (induction P r s rule: replace_plus.induct)
  case (1 P r)
  show ?case by simp
next
  case (2 P r c cs)
  show ?case
  proof (cases "P c")
    case True
    have "set (dropWhile P cs) \<subseteq> set cs" by (auto dest: set_dropWhileD)
    with 2(1)[OF True] True show ?thesis by auto
  next
    case False
    with 2(2)[OF False] show ?thesis by auto
  qed
qed

lemma filter_dropWhile_not: "filter (\<lambda>c. \<not> P c) (dropWhile P s) = filter (\<lambda>c. \<not> P c) s"
  by (induction s) auto

lemma replace_plus_Nil: "replace_plus P [] s = filter (\<lambda>c. \<not> P c) s"
proof (induction P "[] :: int list" s rule: replace_plus.induct)
  case (1 P)
  show ?case by simp
next
  case (2 P c cs)
  then show ?case by (simp add: filter_dropWhile_not)
qed

lemma set_replace_hyphens: "set (replace_hyphens s) \<subseteq> set s"
proof (induction s rule: replace_hyphens.induct)
  case 1
  show ?case by simp
next
  case (2 c cs)
  have "set (dropWhile (\<lambda>d. d = hyphen) cs) \<subseteq> set cs" by (auto dest: set_dropWhileD)
  with 2 show ?case by (cases "c = hyphen \<and> cs \<noteq> [] \<and> hd cs = hyphen") auto
qed

lemma replace_hyphens_Nil_iff: "replace_hyphens s = [] \<longleftrightarrow> s = []"
  by (cases s) auto

lemma hd_replace_hyphens: "s \<noteq> [] \<Longrightarrow> hd (replace_hyphens s) = hd s"
  by (cases s) auto

lemma no_double_hyphen_Cons:
  "no_double_hyphen (c # s) \<longleftrightarrow> (s \<noteq> [] \<and> c = hyphen \<longrightarrow> hd s \<noteq> hyphen) \<and> no_double_hyphen s"
  by (cases s) auto

lemma no_double_hyphen_replace_hyphens: "no_double_hyphen (replace_hyphens s)"
proof (induction s rule: replace_hyphens.induct)
  case 1
  show ?case by simp
next
  case (2 c cs)
  show ?case
  proof (cases "c = hyphen \<and> cs \<noteq> [] \<and> hd cs = hyphen")
    case True
    let ?d = "dropWhile (\<lambda>d. d = hyphen) cs"
    have "?d \<noteq> [] \<longrightarrow> hd ?d \<noteq> hyphen" using hd_dropWhile[of "\<lambda>d. d = hyphen" cs] by simp
    with 2(1)[OF True] True show ?thesis
      by (simp add: no_double_hyphen_Cons replace_hyphens_Nil_iff hd_replace_hyphens)
  next
    case False
    with 2(2)[OF False] show ?thesis
      by (auto simp: no_double_hyphen_Cons replace_hyphens_Nil_iff hd_replace_hyphens)
  qed
qed

lemma replace_hyphens_id: "no_double_hyphen s \<Longrightarrow> replace_hyphens s = s"
  by (induction s rule: replace_hyphens.induct) (auto simp: no_double_hyphen_Cons)

lemma no_double_hyphen_dropWhile: "no_double_hyphen s \<Longrightarrow> no_double_hyphen (dropWhile P s)"
  by (induction s) (auto simp: no_double_hyphen_Cons)

lemma no_double_hyphen_append: "no_double_hyphen (xs @ ys) \<Longrightarrow> no_double_hyphen xs"
  by (induction xs) (auto simp: no_double_hyphen_Cons)

lemma trim_end_hyphens_prefix:
  "trim_end_hyphens s @ rev (takeWhile (\<lambda>d. d = hyphen) (rev s)) = s"
proof -
  have "rev (takeWhile (\<lambda>d. d = hyphen) (rev s) @ dropWhile (\<lambda>d. d = hyphen) (rev s)) = s"
    by simp
  then show ?thesis unfolding trim_end_hyphens_def by (simp only: rev_append)
qed

lemma no_double_hyphen_trim_end: "no_double_hyphen s \<Longrightarrow> no_double_hyphen (trim_end_hyphens s)"
  using no_double_hyphen_append[of "trim_end_hyphens s" "rev (takeWhile (\<lambda>d. d = hyphen) (rev s))"]
  by (simp add: trim_end_hyphens_prefix)

lemma set_trim_end_hyphens: "set (trim_end_hyphens s) \<subseteq> set s"
  unfolding trim_end_hyphens_def by (auto dest: set_dropWhileD)

lemma set_trim_start_hyphens: "set (trim_start_hyphens s) \<subseteq> set s"
  unfolding trim_start_hyphens_def by (auto dest: set_dropWhileD)

lemma hd_trim_start_hyphens: "trim_start_hyphens s \<noteq> [] \<Longrightarrow> hd (trim_start_hyphens s) \<noteq> hyphen"
  unfolding trim_start_hyphens_def using hd_dropWhile[of "\<lambda>d. d = hyphen" s] by simp

lemma last_trim_end_hyphens: "trim_end_hyphens s \<noteq> [] \<Longrightarrow> last (trim_end_hyphens s) \<noteq> hyphen"
  unfolding trim_end_hyphens_def
  using hd_dropWhile[of "\<lambda>d. d = hyphen" "rev s"] by (simp add: last_rev)

lemma hd_trim_end_hyphens: "trim_end_hyphens s \<noteq> [] \<Longrightarrow> hd (trim_end_hyphens s) = hd s"
  using trim_end_hyphens_prefix[of s] by (metis hd_append2)

lemma trim_start_hyphens_id: "s = [] \<or> hd s \<noteq> hyphen \<Longrightarrow> trim_start_hyphens s = s"
  unfolding trim_start_hyphens_def by (cases s) auto

lemma trim_end_hyphens_id: "s = [] \<or> last s \<noteq> hyphen \<Longrightarrow> trim_end_hyphens s = s"
proof (cases "rev s")
  case Nil
  then show ?thesis by (simp add: trim_end_hyphens_def)
next
  case (Cons a as)
  assume "s = [] \<or> last s \<noteq> hyphen"
  moreover have "s \<noteq> []" "last s = a" using Cons by (auto simp: last_rev[symmetric] simp del: last_rev) 
  ultimately have "dropWhile (\<lambda>d. d = hyphen) (rev s) = rev s" using Cons by simp
  then show ?thesis by (simp add: trim_end_hyphens_def)
qed

lemma indexOf_None_iff: "indexOf xs c = None \<longleftrightarrow> c \<notin> set xs"
  by (induction xs) auto

lemma indexOf_Some_less: "indexOf xs c = Some i \<Longrightarrow> i < length xs"
  by (induction xs arbitrary: i) (auto split: if_splits)

lemma set_charAt: "set (charAt s i) \<subseteq> set s"
  by (auto simp: charAt_def)

lemma set_replace_special:
  "c \<in> set (replace_special s) \<Longrightarrow> (c \<in> set s \<and> c \<notin> set slug_a) \<or> c \<in> set slug_b"
proof -
  assume "c \<in> set (replace_special s)"
  then obtain x where x: "x \<in> set s"
    and c: "c \<in> set (case indexOf slug_a x of None \<Rightarrow> [x] | Some i \<Rightarrow> charAt slug_b i)"
    by (auto simp: replace_special_def)
  show ?thesis
  proof (cases "indexOf slug_a x")
    case None
    then have "x \<notin> set slug_a" by (simp add: indexOf_None_iff)
    with x c None show ?thesis by simp
  next
    case (Some i)
    with c set_charAt[of slug_b i] show ?thesis by auto
  qed
qed

lemma replace_special_id: "\<forall>c \<in> set s. c \<notin> set slug_a \<Longrightarrow> replace_special s = s"
  by (induction s) (auto simp: replace_special_def indexOf_None_iff[symmetric])

lemma slug_b_all: "list_all (\<lambda>c. is_lower c \<or> c = hyphen) slug_b"
  by code_simp

lemma slug_b_chars: "c \<in> set slug_b \<Longrightarrow> is_lower c \<or> c = hyphen"
  using slug_b_all by (simp add: list_all_iff)

lemma slug_a_all: "list_all (\<lambda>c. c = 95 \<or> \<not> is_word c \<and> c \<noteq> hyphen) slug_a"
  by code_simp

lemma slug_a_chars: "c \<in> set slug_a \<Longrightarrow> c = 95 \<or> \<not> is_word c \<and> c \<noteq> hyphen"
  using slug_a_all by (simp add: list_all_iff)

lemma underscore_in_slug_a: "95 \<in> set slug_a"
  by code_simp

lemma set_replace_amp:
  "c \<in> set (replace_amp s) \<Longrightarrow> (c \<in> set s \<and> c \<noteq> 38) \<or> c \<in> set (js ''-and-'')"
  by (auto simp: replace_amp_def split: if_splits)

lemma replace_amp_id: "\<forall>c \<in> set s. c \<noteq> 38 \<Longrightarrow> replace_amp s = s"
  by (induction s) (auto simp: replace_amp_def)

lemma and_all: "list_all (\<lambda>c. is_lower c \<or> c = hyphen) (js ''-and-'')"
  by code_simp

lemma and_chars: "c \<in> set (js ''-and-'') \<Longrightarrow> is_lower c \<or> c = hyphen"
  using and_all by (simp add: list_all_iff)

lemma slug_char_props:
  "slug_char c \<Longrightarrow> \<not> is_space c \<and> c \<notin> set slug_a \<and> c \<noteq> 38 \<and> (is_word c \<or> c = hyphen)"
proof -
  assume s: "slug_char c"
  then have w: "is_word c \<or> c = hyphen" by (auto simp: slug_char_def is_word_def)
  have "c \<noteq> 95" using s by (auto simp: slug_char_def is_lower_def is_digit_def hyphen_def)
  with w have "c \<notin> set slug_a" using slug_a_chars[of c] by blast
  moreover have "\<not> is_space c" using s
    by (auto simp: slug_char_def is_space_def is_lower_def is_digit_def hyphen_def)
  moreover have "c \<noteq> 38" using s
    by (auto simp: slug_char_def is_lower_def is_digit_def hyphen_def)
  ultimately show ?thesis using w by blast
qed

lemma slug_pipeline_is_slug:
  assumes up: "\<forall>c \<in> set t. \<not> is_upper c"
  shows "is_slug (slug_pipeline t)"
proof -
  let ?s1 = "replace_plus is_space [hyphen] t"
  let ?s2 = "replace_special ?s1"
  let ?s3 = "replace_amp ?s2"
  let ?s4 = "replace_plus (\<lambda>c. \<not> (is_word c \<or> c = hyphen)) [] ?s3"
  let ?s5 = "replace_hyphens ?s4"
  let ?s6 = "trim_start_hyphens ?s5"
  let ?s7 = "trim_end_hyphens ?s6"
  have c1: "\<forall>c \<in> set ?s1. \<not> is_upper c"
    using set_replace_plus[of is_space "[hyphen]" t] up
    by (auto simp: is_upper_def hyphen_def)
  have c2: "\<forall>c \<in> set ?s2. \<not> is_upper c \<and> c \<noteq> 95"
  proof
    fix c assume "c \<in> set ?s2"
    then have "(c \<in> set ?s1 \<and> c \<notin> set slug_a) \<or> c \<in> set slug_b"
      by (rule set_replace_special)
    then show "\<not> is_upper c \<and> c \<noteq> 95"
      using c1 underscore_in_slug_a slug_b_chars[of c]
      by (auto simp: is_upper_def is_lower_def hyphen_def)
  qed
  have c3: "\<forall>c \<in> set ?s3. \<not> is_upper c \<and> c \<noteq> 95"
  proof
    fix c assume "c \<in> set ?s3"
    then have "(c \<in> set ?s2 \<and> c \<noteq> 38) \<or> c \<in> set (js ''-and-'')"
      by (rule set_replace_amp)
    then show "\<not> is_upper c \<and> c \<noteq> 95"
      using c2 and_chars[of c] by (auto simp: is_upper_def is_lower_def hyphen_def)
  qed
  have c4: "\<forall>c \<in> set ?s4. slug_char c"
    using c3 by (auto simp: replace_plus_Nil slug_char_def is_word_def)
  have c5: "\<forall>c \<in> set ?s5. slug_char c"
    using c4 set_replace_hyphens[of ?s4] by auto
  have c6: "\<forall>c \<in> set ?s6. slug_char c"
    using c5 set_trim_start_hyphens[of ?s5] by auto
  have c7: "\<forall>c \<in> set ?s7. slug_char c"
    using c6 set_trim_end_hyphens[of ?s6] by auto
  have n5: "no_double_hyphen ?s5"
    by (rule no_double_hyphen_replace_hyphens)
  have n6: "no_double_hyphen ?s6"
    unfolding trim_start_hyphens_def using n5 by (rule no_double_hyphen_dropWhile)
  have n7: "no_double_hyphen ?s7"
    using n6 by (rule no_double_hyphen_trim_end)
  have e7: "?s7 \<noteq> [] \<longrightarrow> hd ?s7 \<noteq> hyphen \<and> last ?s7 \<noteq> hyphen"
  proof
    assume ne: "?s7 \<noteq> []"
    then have ne6: "?s6 \<noteq> []" by (auto simp: trim_end_hyphens_def)
    have "hd ?s7 = hd ?s6" using ne by (rule hd_trim_end_hyphens)
    moreover have "hd ?s6 \<noteq> hyphen" using ne6 by (rule hd_trim_start_hyphens)
    moreover have "last ?s7 \<noteq> hyphen" using ne by (rule last_trim_end_hyphens)
    ultimately show "hd ?s7 \<noteq> hyphen \<and> last ?s7 \<noteq> hyphen" by simp
  qed
  show ?thesis
    unfolding is_slug_def slug_pipeline_def using c7 n7 e7 by blast
qed

lemma slug_pipeline_fixes_slug:
  assumes "is_slug s"
  shows "slug_pipeline s = s"
proof -
  have ch: "\<forall>c \<in> set s. slug_char c" and nd: "no_double_hyphen s"
    and ends: "s = [] \<or> hd s \<noteq> hyphen" "s = [] \<or> last s \<noteq> hyphen"
    using assms by (auto simp: is_slug_def)
  have s1: "replace_plus is_space [hyphen] s = s"
    using ch slug_char_props by (intro replace_plus_id) blast
  have s2: "replace_special s = s"
    using ch slug_char_props by (intro replace_special_id) blast
  have s3: "replace_amp s = s"
    using ch slug_char_props by (intro replace_amp_id) blast
  have s4: "replace_plus (\<lambda>c. \<not> (is_word c \<or> c = hyphen)) [] s = s"
    using ch slug_char_props by (intro replace_plus_id) blast
  have s5: "replace_hyphens s = s" using nd by (rule replace_hyphens_id)
  have s6: "trim_start_hyphens s = s" using ends(1) by (rule trim_start_hyphens_id)
  have s7: "trim_end_hyphens s = s" using ends(2) by (rule trim_end_hyphens_id)
  show ?thesis unfolding slug_pipeline_def by (simp only: s1 s2 s3 s4 s5 s6 s7)
qed

lemma toLowerCase_no_upper: "\<forall>c \<in> set (toLowerCase s). \<not> is_upper c"
  by (auto simp: toLowerCase_def lower_unit_def is_upper_def)

lemma toLowerCase_fixes_slug: "\<forall>c \<in> set s. slug_char c \<Longrightarrow> toLowerCase s = s"
  by (induction s) (auto simp: toLowerCase_def lower_unit_def is_upper_def slug_char_def is_lower_def is_digit_def hyphen_def)

lemma slugify_eq: "slugify lc text = (case text of None \<Rightarrow> [] | Some s \<Rightarrow> if s = [] then [] else slug_pipeline (lc s))"
  by (simp add: slugify_def slug_pipeline_def split: option.splits)

text \<open>
  C4: for every string \<open>x\<close> (and for a missing one), \<open>slugify (slugify x) = slugify x\<close>.
  The case mapping is a parameter: the result holds for every \<open>lc\<close> that leaves no
  \<open>A-Z\<close> behind and fixes text made of \<open>a-z\<close>, \<open>0-9\<close> and hyphens, as
  \<open>toLowerCase\<close> of the language does.
\<close>

theorem slugify_idempotent:
  assumes no_upper: "\<And>s. \<forall>c \<in> set (lc s). \<not> is_upper c"
    and fixes_slug: "\<And>s. \<forall>c \<in> set s. slug_char c \<Longrightarrow> lc s = s"
  shows "slugify lc (Some (slugify lc x)) = slugify lc x"
proof (cases "truthy x")
  case False
  then show ?thesis by (auto simp: slugify_def truthy_def split: option.splits)
next
  case True
  then obtain s where x: "x = Some s" "s \<noteq> []" by (auto simp: truthy_def split: option.splits)
  let ?y = "slug_pipeline (lc s)"
  have y: "slugify lc x = ?y" using x by (simp add: slugify_eq)
  have sl: "is_slug ?y" using no_upper by (rule slug_pipeline_is_slug)
  then have "lc ?y = ?y" by (intro fixes_slug) (simp add: is_slug_def)
  then have "slugify lc (Some ?y) = ?y"
    using slug_pipeline_fixes_slug[OF sl] by (simp add: slugify_eq)
  with y show ?thesis by simp
qed

theorem slugify_idempotent_witness:
  "slugify toLowerCase (Some (js ''Hello  World & Co'')) = js ''hello-world-and-co''
   \<and> slugify toLowerCase (Some (slugify toLowerCase (Some (js ''Hello  World & Co''))))
       = js ''hello-world-and-co''"
proof -
  have v: "slugify toLowerCase (Some (js ''Hello  World & Co'')) = js ''hello-world-and-co''"
    by code_simp
  have "slugify toLowerCase (Some (slugify toLowerCase (Some (js ''Hello  World & Co''))))
        = slugify toLowerCase (Some (js ''Hello  World & Co''))"
    using toLowerCase_no_upper toLowerCase_fixes_slug by (rule slugify_idempotent)
  with v show ?thesis by simp
qed

section \<open>Rows and their columns\<close>

subsection \<open>Columns of rows\<close>

lemma column_Nil: "column key [] = []"
  by (simp add: column_def)

lemma column_Cons:
  "column key (row # rows) = (case row key of None \<Rightarrow> column key rows | Some v \<Rightarrow> v # column key rows)"
  by (simp add: column_def split: option.splits)

lemma column_append: "column key (xs @ ys) = column key xs @ column key ys"
  by (induction xs) (auto simp: column_Nil column_Cons split: option.splits)

lemma column_map_Some: "(\<And>x. g x key = Some (h x)) \<Longrightarrow> column key (map g xs) = map h xs"
  by (induction xs) (auto simp: column_Nil column_Cons)

lemma column_map_None: "(\<And>x. g x key = None) \<Longrightarrow> column key (map g xs) = []"
  by (induction xs) (auto simp: column_Nil column_Cons)

lemma map_nth_from_1: "map (\<lambda>i. f (xs ! i)) [1 ..< length xs] = map f (tl xs)"
proof (cases xs)
  case Nil
  then show ?thesis by simp
next
  case (Cons x ys)
  have "[1 ..< length xs] = map Suc [0 ..< length ys]"
    using Cons by (simp add: map_Suc_upt)
  then have "map (\<lambda>i. f (xs ! i)) [1 ..< length xs] = map (\<lambda>i. f (ys ! i)) [0 ..< length ys]"
    using Cons by (simp add: comp_def)
  also have "\<dots> = map f (map (\<lambda>i. ys ! i) [0 ..< length ys])"
    by (simp add: comp_def)
  also have "\<dots> = map f ys" by (simp only: map_nth)
  finally show ?thesis using Cons by simp
qed

lemma image_row_Handle: "image_row h u n ''Handle'' = Some (Str h)"
  by (simp add: image_row_def)

lemma image_row_Src: "image_row h u n ''Image Src'' = Some (Str u)"
  by (simp add: image_row_def)

lemma image_row_Position: "image_row h u n ''Image Position'' = Some (Num n)"
  by (simp add: image_row_def)

lemma image_row_SKU: "image_row h u n ''Variant SKU'' = None"
  by (simp add: image_row_def)

lemma continuation_rows_Src:
  "column ''Image Src'' (continuation_rows h imgs) = map Str (tl imgs)"
proof -
  have "column ''Image Src'' (continuation_rows h imgs)
        = map (\<lambda>i. Str (imgs ! i)) [1 ..< length imgs]"
    unfolding continuation_rows_def by (rule column_map_Some) (rule image_row_Src)
  then show ?thesis by (simp only: map_nth_from_1)
qed

lemma continuation_rows_Handle:
  "list_all (\<lambda>row. row ''Handle'' = Some (Str h)) (continuation_rows h imgs)"
  by (simp add: continuation_rows_def list_all_iff image_row_Handle)

lemma continuation_rows_Nil: "length imgs \<le> 1 \<Longrightarrow> continuation_rows h imgs = []"
  by (simp add: continuation_rows_def)

subsection \<open>The image list of structured-array mode\<close>

lemma first_occurrences_Cons:
  "first_occurrences (x # xs) = x # first_occurrences (filter (\<lambda>y. y \<noteq> x) xs)"
proof -
  have "remdups (rev xs @ [x]) = remdups (filter (\<lambda>y. y \<noteq> x) (rev xs)) @ [x]"
    by (induction xs rule: rev_induct) auto
  then show ?thesis by (simp add: first_occurrences_def rev_filter)
qed

lemma first_occurrences_Nil: "first_occurrences [] = []"
  by (simp add: first_occurrences_def)

lemma distinct_first_occurrences: "distinct (first_occurrences xs)"
  by (simp add: first_occurrences_def)

lemma set_first_occurrences: "set (first_occurrences xs) = set xs"
  by (simp add: first_occurrences_def)

lemma push_thumbs_eq:
  "push_thumbs acc ts
   = acc @ first_occurrences (filter (\<lambda>t. t \<noteq> [] \<and> t \<notin> set acc) ts)"
proof (induction ts arbitrary: acc)
  case Nil
  show ?case by (simp add: first_occurrences_Nil)
next
  case (Cons t ts)
  show ?case
  proof (cases "t \<noteq> [] \<and> t \<notin> set acc")
    case True
    have "(\<lambda>u. u \<noteq> [] \<and> u \<notin> set (acc @ [t])) = (\<lambda>u. (u \<noteq> [] \<and> u \<notin> set acc) \<and> u \<noteq> t)"
      by auto
    then have "push_thumbs (acc @ [t]) ts
       = acc @ t # first_occurrences (filter (\<lambda>u. u \<noteq> t) (filter (\<lambda>u. u \<noteq> [] \<and> u \<notin> set acc) ts))"
      using Cons[of "acc @ [t]"] by (simp add: conj_commute)
    with True show ?thesis by (simp add: first_occurrences_Cons)
  next
    case False
    with Cons[of acc] show ?thesis by auto
  qed
qed

lemma allImages_eq:
  "allImages p = first_occurrences (filter (\<lambda>u. u \<noteq> []) (image_candidates p))"
proof (cases "truthy (mainImage p)")
  case True
  then obtain m where m: "mainImage p = Some m" "m \<noteq> []"
    by (auto simp: truthy_def split: option.splits)
  have "(\<lambda>t. t \<noteq> [] \<and> t \<notin> set [m]) = (\<lambda>t. t \<noteq> m \<and> t \<noteq> [])" by auto
  then show ?thesis using m True
    by (simp add: allImages_def image_candidates_def push_thumbs_eq first_occurrences_Cons)
next
  case False
  then have "filter (\<lambda>u. u \<noteq> []) (case mainImage p of None \<Rightarrow> [] | Some m \<Rightarrow> [m]) = []"
    by (auto simp: truthy_def split: option.splits)
  then show ?thesis using False
    by (simp add: allImages_def image_candidates_def push_thumbs_eq)
qed

lemma distinct_allImages: "distinct (allImages p)"
  by (simp add: allImages_eq distinct_first_occurrences)

lemma productRow_no_Src: "productRow lc p ''Image Src'' = None"
  by (simp add: productRow_def)

lemma productRow_no_Position: "productRow lc p ''Image Position'' = None"
  by (simp add: productRow_def)

lemma productRow_Handle: "productRow lc p ''Handle'' = Some (Str (json_handle lc p))"
  by (simp add: productRow_def)

lemma json_record_rows_Src:
  "column ''Image Src'' (json_record_rows lc processed p)
   = (if hasImages p \<and> json_handle lc p \<notin> processed then map Str (allImages p) else [])"
proof (cases "hasImages p \<and> json_handle lc p \<notin> processed")
  case False
  then show ?thesis
    by (auto simp: json_record_rows_def column_Cons column_Nil productRow_no_Src)
next
  case True
  show ?thesis
  proof (cases "allImages p")
    case Nil
    with True show ?thesis
      by (simp add: json_record_rows_def column_Cons column_Nil productRow_no_Src
          continuation_rows_Nil)
  next
    case (Cons u us)
    with True show ?thesis
      by (simp add: json_record_rows_def column_Cons continuation_rows_Src)
  qed
qed

lemma json_record_rows_Handle:
  "list_all (\<lambda>row. row ''Handle'' = Some (Str (json_handle lc p)))
     (json_record_rows lc processed p)"
  using continuation_rows_Handle[of "json_handle lc p" "allImages p"]
  by (simp add: json_record_rows_def productRow_Handle)

lemma json_record_rows_no_images:
  "allImages p = [] \<Longrightarrow> json_record_rows lc processed p = [productRow lc p]"
  by (simp add: json_record_rows_def continuation_rows_Nil)

lemma json_record_rows_processed:
  "json_handle lc p \<in> processed \<Longrightarrow> json_record_rows lc processed p = [productRow lc p]"
  by (simp add: json_record_rows_def)

lemma fst_json_step: "fst (json_step lc st p) = fst st @ json_record_rows lc (snd st) p"
  by (simp add: json_step_def)

lemma snd_json_step:
  "snd (json_step lc st p)
   = (if hasImages p \<and> json_handle lc p \<notin> snd st then insert (json_handle lc p) (snd st)
      else snd st)"
  by (simp add: json_step_def)

lemma json_foldl_snoc:
  "foldl (json_step lc) st (ps @ [p]) = json_step lc (foldl (json_step lc) st ps) p"
  by simp

lemma json_processed_set:
  "snd (foldl (json_step lc) st ps)
   = snd st \<union> json_handle lc ` {q \<in> set ps. hasImages q}"
proof (induction ps rule: rev_induct)
  case Nil
  show ?case by simp
next
  case (snoc p ps)
  then show ?case by (auto simp: snd_json_step)
qed

section \<open>The loop of flexible-tabular mode\<close>

subsection \<open>Flexible-tabular mode\<close>

lemma mainVariantRow_Handle:
  "mainVariantRow lc r k ''Handle'' = Some (Str (csv_handle lc r k))"
  by (simp add: mainVariantRow_def)

lemma mainVariantRow_SKU: "mainVariantRow lc r k ''Variant SKU'' = Some (Str k)"
  by (simp add: mainVariantRow_def)

lemma mainVariantRow_Src:
  "mainVariantRow lc r k ''Image Src'' = Some (Str (or_else (getCol r ''main_image'') []))"
  by (simp add: mainVariantRow_def)

lemma sub_image_rows_Src: "column ''Image Src'' (sub_image_rows h thumbs) = map Str thumbs"
proof -
  have "column ''Image Src'' (sub_image_rows h thumbs)
        = map (\<lambda>i. Str (thumbs ! i)) [0 ..< length thumbs]"
    unfolding sub_image_rows_def by (rule column_map_Some) (rule image_row_Src)
  also have "\<dots> = map Str (map (\<lambda>i. thumbs ! i) [0 ..< length thumbs])"
    by (simp add: comp_def)
  finally show ?thesis by (simp only: map_nth)
qed

lemma sub_image_rows_SKU: "column ''Variant SKU'' (sub_image_rows h thumbs) = []"
  unfolding sub_image_rows_def by (rule column_map_None) (rule image_row_SKU)

lemma sub_image_rows_Handle:
  "list_all (\<lambda>row. row ''Handle'' = Some (Str h)) (sub_image_rows h thumbs)"
  by (simp add: sub_image_rows_def list_all_iff image_row_Handle)

lemma sub_image_rows_Nil: "sub_image_rows h [] = []"
  by (simp add: sub_image_rows_def)

lemma csv_record_rows_cases:
  "csv_record_rows lc seen r =
     (if csv_unprocessable lc r \<or> or_else (getCol r ''product_id'') [] \<in> seen then []
      else csv_expansion lc r)"
  by (auto simp: csv_record_rows_def csv_unprocessable_def csv_expansion_def or_else_def
      split: option.splits)

lemma csv_seen_cases:
  "csv_seen lc seen r =
     (if csv_unprocessable lc r then seen
      else insert (or_else (getCol r ''product_id'') []) seen)"
  by (auto simp: csv_seen_def csv_unprocessable_def or_else_def split: option.splits)

lemma csv_expansion_nonempty: "csv_expansion lc r \<noteq> []"
  by (simp add: csv_expansion_def)

lemma csv_seen_mono: "seen \<subseteq> csv_seen lc seen r"
  by (auto simp: csv_seen_cases)

lemma fst_csv_step: "fst (csv_step lc st r) = fst st @ csv_record_rows lc (snd st) r"
  by (simp add: csv_step_def)

lemma snd_csv_step: "snd (csv_step lc st r) = csv_seen lc (snd st) r"
  by (simp add: csv_step_def)

lemma csv_groups_concat:
  "fst (foldl (csv_step lc) (out, seen) rs) = out @ concat (csv_groups lc seen rs)"
proof (induction rs arbitrary: out seen)
  case Nil
  show ?case by simp
next
  case (Cons r rs)
  have "csv_step lc (out, seen) r = (out @ csv_record_rows lc seen r, csv_seen lc seen r)"
    by (simp add: csv_step_def)
  then show ?case using Cons[of "out @ csv_record_rows lc seen r" "csv_seen lc seen r"]
    by simp
qed

lemma length_csv_groups: "length (csv_groups lc seen rs) = length rs"
  by (induction rs arbitrary: seen) auto

lemma csv_groups_unprocessable:
  "\<forall>r \<in> set rs. csv_unprocessable lc r \<Longrightarrow> concat (csv_groups lc seen rs) = []"
  by (induction rs arbitrary: seen) (auto simp: csv_record_rows_cases csv_seen_cases)

lemma csv_groups_seen:
  "j < length rs \<Longrightarrow> or_else (getCol (rs ! j) ''product_id'') [] \<in> seen
   \<Longrightarrow> csv_groups lc seen rs ! j = []"
proof (induction rs arbitrary: seen j)
  case Nil
  then show ?case by simp
next
  case (Cons r rs)
  show ?case
  proof (cases j)
    case 0
    with Cons.prems show ?thesis by (simp add: csv_record_rows_cases)
  next
    case (Suc j')
    have "or_else (getCol (rs ! j') ''product_id'') [] \<in> csv_seen lc seen r"
      using Cons.prems Suc csv_seen_mono[of seen lc r] by auto
    with Cons.IH[of j' "csv_seen lc seen r"] Cons.prems Suc show ?thesis by simp
  qed
qed

lemma csv_groups_first_wins:
  "i < j \<Longrightarrow> j < length rs
   \<Longrightarrow> getCol (rs ! i) ''product_id'' = getCol (rs ! j) ''product_id''
   \<Longrightarrow> csv_groups lc seen rs ! i \<noteq> []
   \<Longrightarrow> csv_groups lc seen rs ! j = []"
proof (induction rs arbitrary: seen i j)
  case Nil
  then show ?case by simp
next
  case (Cons r rs)
  obtain j' where j: "j = Suc j'" using Cons.prems(1) by (cases j) auto
  show ?case
  proof (cases i)
    case 0
    have "csv_record_rows lc seen r \<noteq> []" using Cons.prems(4) 0 by simp
    then have "\<not> csv_unprocessable lc r"
      by (auto simp: csv_record_rows_cases split: if_splits)
    then have "or_else (getCol r ''product_id'') [] \<in> csv_seen lc seen r"
      by (simp add: csv_seen_cases)
    moreover have "getCol r ''product_id'' = getCol (rs ! j') ''product_id''"
      using Cons.prems(3) 0 j by simp
    ultimately have "or_else (getCol (rs ! j') ''product_id'') [] \<in> csv_seen lc seen r"
      by simp
    moreover have "j' < length rs" using Cons.prems(2) j by simp
    ultimately have "csv_groups lc (csv_seen lc seen r) rs ! j' = []"
      by (intro csv_groups_seen)
    then show ?thesis using j by simp
  next
    case (Suc i')
    with Cons.IH[of i' j' "csv_seen lc seen r"] Cons.prems j show ?thesis by simp
  qed
qed

lemma csv_groups_not_merged:
  "i < length rs
   \<Longrightarrow> csv_groups lc seen rs ! i = [] \<or> csv_groups lc seen rs ! i = csv_expansion lc (rs ! i)"
proof (induction rs arbitrary: seen i)
  case Nil
  then show ?case by simp
next
  case (Cons r rs)
  show ?case
  proof (cases i)
    case 0
    then show ?thesis by (simp add: csv_record_rows_cases)
  next
    case (Suc i')
    with Cons.IH[of i' "csv_seen lc seen r"] Cons.prems show ?thesis by simp
  qed
qed

lemma csv_seen_fold_keys:
  "k \<in> snd (foldl (csv_step lc) (out, seen) rs)
   \<Longrightarrow> k \<in> seen \<or> (\<exists>r \<in> set rs. or_else (getCol r ''product_id'') [] = k)"
proof (induction rs arbitrary: out seen)
  case Nil
  then show ?case by simp
next
  case (Cons r rs)
  have step: "csv_step lc (out, seen) r = (out @ csv_record_rows lc seen r, csv_seen lc seen r)"
    by (simp add: csv_step_def)
  from Cons.prems have "k \<in> csv_seen lc seen r
      \<or> (\<exists>r \<in> set rs. or_else (getCol r ''product_id'') [] = k)"
    using Cons.IH[of "out @ csv_record_rows lc seen r" "csv_seen lc seen r"] step by simp
  then show ?case by (auto simp: csv_seen_cases split: if_splits)
qed

lemma csv_groups_nth:
  "i < length rs
   \<Longrightarrow> csv_groups lc seen rs ! i
       = csv_record_rows lc (snd (foldl (csv_step lc) (out, seen) (take i rs))) (rs ! i)"
proof (induction rs arbitrary: out seen i)
  case Nil
  then show ?case by simp
next
  case (Cons r rs)
  show ?case
  proof (cases i)
    case 0
    then show ?thesis by simp
  next
    case (Suc i')
    have step: "csv_step lc (out, seen) r = (out @ csv_record_rows lc seen r, csv_seen lc seen r)"
      by (simp add: csv_step_def)
    show ?thesis
      using Cons.IH[of i' "csv_seen lc seen r" "out @ csv_record_rows lc seen r"] Cons.prems Suc step
      by simp
  qed
qed

lemma csv_groups_first_expanded:
  assumes i: "i < length rs"
    and ok: "\<not> csv_unprocessable lc (rs ! i)"
    and first: "\<forall>j < i. getCol (rs ! j) ''product_id'' \<noteq> getCol (rs ! i) ''product_id''"
  shows "csv_groups lc {} rs ! i = csv_expansion lc (rs ! i)"
proof -
  let ?k = "or_else (getCol (rs ! i) ''product_id'') []"
  let ?seen = "snd (foldl (csv_step lc) ([], {}) (take i rs))"
  obtain s where s: "getCol (rs ! i) ''product_id'' = Some s" "s \<noteq> []"
    using ok by (auto simp: csv_unprocessable_def split: option.splits)
  have "?k \<notin> ?seen"
  proof
    assume "?k \<in> ?seen"
    then have "\<exists>r \<in> set (take i rs). or_else (getCol r ''product_id'') [] = ?k"
      using csv_seen_fold_keys[of ?k lc "[]" "{}" "take i rs"] by simp
    then obtain j where j: "j < i" "or_else (getCol (rs ! j) ''product_id'') [] = ?k"
      using i by (auto simp: in_set_conv_nth)
    have "getCol (rs ! j) ''product_id'' \<noteq> Some s" using first j(1) s by simp
    moreover have "or_else (getCol (rs ! j) ''product_id'') [] = s"
      using j(2) s by (simp add: or_else_def)
    ultimately show False using s(2) by (auto simp: or_else_def split: option.splits if_splits)
  qed
  then show ?thesis
    using csv_groups_nth[OF i, of lc "{}" "[]"] ok by (simp add: csv_record_rows_cases)
qed

lemma csv_expansion_SKU:
  "column ''Variant SKU'' (csv_expansion lc r) = [Str (or_else (getCol r ''product_id'') [])]"
  by (simp add: csv_expansion_def column_Cons mainVariantRow_SKU sub_image_rows_SKU)

lemma csv_step_skip:
  "csv_unprocessable lc r \<or> or_else (getCol r ''product_id'') [] \<in> seen
   \<Longrightarrow> csv_step lc (out, seen) r = (out, seen)"
  by (auto simp: csv_step_def csv_record_rows_cases csv_seen_cases)

lemma csv_step_expand:
  "\<not> (csv_unprocessable lc r \<or> or_else (getCol r ''product_id'') [] \<in> seen)
   \<Longrightarrow> csv_step lc (out, seen) r
       = (out @ csv_expansion lc r, insert (or_else (getCol r ''product_id'') []) seen)"
  by (auto simp: csv_step_def csv_record_rows_cases csv_seen_cases)

lemma csv_skus_invariant:
  "distinct (column ''Variant SKU'' out) \<Longrightarrow> set (column ''Variant SKU'' out) = Str ` seen
   \<Longrightarrow> distinct (column ''Variant SKU'' (fst (foldl (csv_step lc) (out, seen) rs)))"
proof (induction rs arbitrary: out seen)
  case Nil
  then show ?case by simp
next
  case (Cons r rs)
  let ?k = "or_else (getCol r ''product_id'') []"
  show ?case
  proof (cases "csv_unprocessable lc r \<or> ?k \<in> seen")
    case True
    have "foldl (csv_step lc) (out, seen) (r # rs) = foldl (csv_step lc) (out, seen) rs"
      by (simp only: foldl_Cons csv_step_skip[OF True])
    then show ?thesis using Cons.IH[OF Cons.prems] by (simp only:)
  next
    case False
    have "Str ?k \<notin> Str ` seen" using False by blast
    then have notin: "Str ?k \<notin> set (column ''Variant SKU'' out)"
      by (simp add: Cons.prems(2))
    have d: "distinct (column ''Variant SKU'' (out @ csv_expansion lc r))"
      using Cons.prems(1) notin by (simp add: column_append csv_expansion_SKU)
    have "set (column ''Variant SKU'' (out @ csv_expansion lc r))
          = insert (Str ?k) (set (column ''Variant SKU'' out))"
      by (simp add: column_append csv_expansion_SKU)
    then have s: "set (column ''Variant SKU'' (out @ csv_expansion lc r)) = Str ` insert ?k seen"
      by (simp only: Cons.prems(2) image_insert)
    have "foldl (csv_step lc) (out, seen) (r # rs)
          = foldl (csv_step lc) (out @ csv_expansion lc r, insert ?k seen) rs"
      by (simp only: foldl_Cons csv_step_expand[OF False])
    then show ?thesis using Cons.IH[OF d s] by (simp only:)
  qed
qed

lemma csv_expansion_Handle:
  "list_all (\<lambda>row. row ''Handle''
      = Some (Str (csv_handle lc r (or_else (getCol r ''product_id'') []))))
     (csv_expansion lc r)"
  unfolding csv_expansion_def
  using sub_image_rows_Handle[of "csv_handle lc r (or_else (getCol r ''product_id'') [])" "csv_thumbs r"]
  by (simp only: list.pred_inject mainVariantRow_Handle simp_thms)

lemma csv_record_rows_Handle:
  "list_all (\<lambda>row. row ''Handle''
      = Some (Str (csv_handle lc r (or_else (getCol r ''product_id'') []))))
     (csv_record_rows lc seen r)"
  using csv_expansion_Handle[of lc r] by (simp add: csv_record_rows_cases)

lemma csv_expansion_Src:
  "column ''Image Src'' (csv_expansion lc r)
   = Str (or_else (getCol r ''main_image'') []) # map Str (csv_thumbs r)"
  by (simp add: csv_expansion_def column_Cons mainVariantRow_Src sub_image_rows_Src)

lemma csv_groups_empty_iff:
  "(concat (csv_groups lc {} rs) = []) = (\<forall>r \<in> set rs. csv_unprocessable lc r)"
proof (induction rs)
  case Nil
  show ?case by simp
next
  case (Cons r rs)
  show ?case
  proof (cases "csv_unprocessable lc r")
    case True
    then have "csv_record_rows lc {} r = []" "csv_seen lc {} r = {}"
      by (simp_all add: csv_record_rows_cases csv_seen_cases)
    with Cons True show ?thesis by simp
  next
    case False
    then have "csv_record_rows lc {} r \<noteq> []"
      by (simp add: csv_record_rows_cases csv_expansion_nonempty)
    with False show ?thesis by simp
  qed
qed

section \<open>The other modes\<close>

subsection \<open>Scraper mode\<close>

lemma scraper_mainVariantRow_Handle:
  "scraper_mainVariantRow lc d ''Handle'' = Some (Str (scraper_handle lc d))"
  by (simp add: scraper_mainVariantRow_def)

lemma scraper_mainVariantRow_Src:
  "scraper_mainVariantRow lc d ''Image Src'' = Some (Str (s_mainImage d))"
  by (simp add: scraper_mainVariantRow_def)

lemma scraper_Src:
  "column ''Image Src'' (processUrlAndHtml lc d)
   = Str (s_mainImage d) # map Str (tl (scraper_allImages d))"
  by (simp add: processUrlAndHtml_def column_Cons scraper_mainVariantRow_Src
      continuation_rows_Src)

lemma scraper_allImages_main:
  "s_mainImage d \<noteq> [] \<Longrightarrow> s_mainImage d # tl (scraper_allImages d) = scraper_allImages d"
  by (simp add: scraper_allImages_def)

lemma scraper_Handle:
  "list_all (\<lambda>row. row ''Handle'' = Some (Str (scraper_handle lc d))) (processUrlAndHtml lc d)"
  unfolding processUrlAndHtml_def
  using continuation_rows_Handle[of "scraper_handle lc d" "scraper_allImages d"]
  by (simp only: list.pred_inject scraper_mainVariantRow_Handle simp_thms)

lemma scraper_no_images:
  "scraper_allImages d = [] \<Longrightarrow> processUrlAndHtml lc d = [scraper_mainVariantRow lc d]"
  by (simp add: processUrlAndHtml_def continuation_rows_Nil)

lemma scraper_no_images_main: "scraper_allImages d = [] \<Longrightarrow> s_mainImage d = []"
  by (auto simp: scraper_allImages_def split: if_splits)

subsection \<open>Re-projection mode\<close>

lemma fill_column_other:
  "key \<noteq> other \<Longrightarrow> snd (fill_column key remembered row) other = row other"
  by (simp add: fill_column_def)

lemma forward_fill_Handle:
  "map (\<lambda>row. row ''Handle'') (forward_fill st rows) = map (\<lambda>row. row ''Handle'') rows"
proof (induction st rows rule: forward_fill.induct)
  case (1 remembered)
  show ?case by simp
next
  case (2 lastTitle lastVendor lastOption1Name row rows)
  obtain t1 r1 where a: "fill_column ''Title'' lastTitle row = (t1, r1)" by fastforce
  obtain t2 r2 where b: "fill_column ''Vendor'' lastVendor r1 = (t2, r2)" by fastforce
  obtain t3 r3 where c: "fill_column ''Option1 Name'' lastOption1Name r2 = (t3, r3)" by fastforce
  have "r1 ''Handle'' = row ''Handle''"
    using fill_column_other[of "''Title''" "''Handle''" lastTitle row] a by simp
  moreover have "r2 ''Handle'' = r1 ''Handle''"
    using fill_column_other[of "''Vendor''" "''Handle''" lastVendor r1] b by simp
  moreover have "r3 ''Handle'' = r2 ''Handle''"
    using fill_column_other[of "''Option1 Name''" "''Handle''" lastOption1Name r2] c by simp
  ultimately have h: "r3 ''Handle'' = row ''Handle''" by simp
  have "map (\<lambda>row. row ''Handle'') (forward_fill (t1, t2, t3) rows)
        = map (\<lambda>row. row ''Handle'') rows"
    using "2.IH"[of "(t1, r1)" t1 r1 "(t2, r2)" t2 r2 "(t3, r3)" t3 r3] a b c by simp
  then show ?case using a b c h by simp
qed

lemma map_filter_Nil:
  "\<forall>x \<in> set xs. f x = None \<Longrightarrow> List.map_filter f xs = []"
  by (induction xs) (auto simp: map_filter_simps)

lemma shopify_all_dropped:
  assumes "\<forall>row \<in> set rows. \<not> nonblank (row ''Handle'')"
  shows "List.map_filter set_defaults (forward_fill st rows) = []"
proof (rule map_filter_Nil, rule ballI)
  fix r assume "r \<in> set (forward_fill st rows)"
  then have "r ''Handle'' \<in> set (map (\<lambda>row. row ''Handle'') (forward_fill st rows))" by simp
  then have "r ''Handle'' \<in> set (map (\<lambda>row. row ''Handle'') rows)"
    by (simp only: forward_fill_Handle)
  then have "\<not> nonblank (r ''Handle'')" using assms by auto
  then show "set_defaults r = None" by (simp add: set_defaults_def)
qed

lemma nonblank_Some: "nonblank v \<Longrightarrow> v = Some (the v)"
  by (cases v) (auto simp: nonblank_def)

lemma last_nonblank_Nil: "last_nonblank key initial [] = initial"
  by (simp add: last_nonblank_def nonblank_values_def)

lemma last_nonblank_Cons:
  "last_nonblank key initial (row # rows)
   = last_nonblank key (if nonblank (row key) then the (row key) else initial) rows"
proof (cases "nonblank (row key)")
  case True
  then obtain x where x: "row key = Some x" by (cases "row key") (auto simp: nonblank_def)
  have "nonblank_values key (row # rows) = x # nonblank_values key rows"
    using True x by (simp add: nonblank_values_def map_filter_simps)
  then show ?thesis using True x by (simp add: last_nonblank_def)
next
  case False
  then have "nonblank_values key (row # rows) = nonblank_values key rows"
    by (simp add: nonblank_values_def map_filter_simps)
  then show ?thesis using False by (simp add: last_nonblank_def)
qed

lemma fill_column_eq:
  "fill_column key remembered row
   = (if nonblank (row key) then the (row key) else remembered,
      row(key \<mapsto> (if nonblank (row key) then the (row key) else remembered)))"
proof (cases "nonblank (row key)")
  case True
  then have "row key = Some (the (row key))" by (rule nonblank_Some)
  then have "row(key \<mapsto> the (row key)) = row" by (metis fun_upd_triv)
  then show ?thesis using True by (simp add: fill_column_def)
next
  case False
  then show ?thesis by (simp add: fill_column_def)
qed

lemma forward_fill_Cons:
  "forward_fill (t, v, n) (row # rows)
   = row(''Title'' \<mapsto> last_nonblank ''Title'' t [row],
         ''Vendor'' \<mapsto> last_nonblank ''Vendor'' v [row],
         ''Option1 Name'' \<mapsto> last_nonblank ''Option1 Name'' n [row])
     # forward_fill (last_nonblank ''Title'' t [row], last_nonblank ''Vendor'' v [row],
                     last_nonblank ''Option1 Name'' n [row]) rows"
  by (simp add: fill_column_eq last_nonblank_Cons last_nonblank_Nil)

lemma length_forward_fill: "length (forward_fill (t, v, n) rows) = length rows"
proof (induction rows arbitrary: t v n)
  case Nil
  show ?case by simp
next
  case (Cons row rows)
  show ?case by (simp only: forward_fill_Cons length_Cons Cons.IH)
qed

lemma forward_fill_nth:
  "i < length rows
   \<Longrightarrow> forward_fill (t, v, n) rows ! i
       = (rows ! i)(''Title'' \<mapsto> last_nonblank ''Title'' t (take (Suc i) rows),
                    ''Vendor'' \<mapsto> last_nonblank ''Vendor'' v (take (Suc i) rows),
                    ''Option1 Name'' \<mapsto> last_nonblank ''Option1 Name'' n (take (Suc i) rows))"
proof (induction rows arbitrary: t v n i)
  case Nil
  then show ?case by simp
next
  case (Cons row rows)
  show ?case
  proof (cases i)
    case 0
    then show ?thesis by (simp only: forward_fill_Cons nth_Cons_0 take_Suc_Cons take_0)
  next
    case (Suc j)
    then have j: "j < length rows" using Cons.prems by simp
    have c: "\<And>key x. last_nonblank key (last_nonblank key x [row]) (take (Suc j) rows)
                    = last_nonblank key x (row # take (Suc j) rows)"
      by (simp add: last_nonblank_Cons last_nonblank_Nil)
    show ?thesis
      using Cons.IH[OF j, of "last_nonblank ''Title'' t [row]" "last_nonblank ''Vendor'' v [row]"
          "last_nonblank ''Option1 Name'' n [row]"]
      by (simp only: Suc forward_fill_Cons nth_Cons_Suc take_Suc_Cons c)
  qed
qed

subsection \<open>Extracted-single-record mode\<close>

lemma or_else_nonempty: "d \<noteq> [] \<Longrightarrow> or_else v d \<noteq> []"
  by (auto simp: or_else_def split: option.splits)

lemma js_product_nonempty: "js ''product'' \<noteq> []"
  by (simp add: js_def)

lemma extracted_handle_clock: "extracted_handle now1 lc e = extracted_handle now2 lc e"
  using or_else_nonempty[OF js_product_nonempty, of "e_productName e"]
  by (simp add: extracted_handle_def createHandle_def)

lemma shopifyData_Handle: "shopifyData now lc e ''Handle'' = Some (Str (extracted_handle now lc e))"
  by (simp add: shopifyData_def)

lemma distinct_map_Str: "distinct xs \<Longrightarrow> distinct (map Str xs)"
  by (simp add: distinct_map inj_on_def)

lemma rows_of_processCsv: "rows_of (processCsv lc inputRows) = concat (csv_groups lc {} inputRows)"
proof (cases inputRows)
  case Nil
  then show ?thesis by (simp add: processCsv_def rows_of_def)
next
  case (Cons r rs)
  have "fst (foldl (csv_step lc) ([], {}) inputRows) = concat (csv_groups lc {} inputRows)"
    using csv_groups_concat[of lc "[]" "{}" inputRows] by simp
  then show ?thesis using Cons by (simp add: processCsv_def rows_of_def Let_def)
qed

lemma productRow_fields:
  "productRow lc p ''Title'' = Some (Str (or_else (productName p) []))
   \<and> productRow lc p ''Body (HTML)''
       = Some (Str (html_body (description p) (caution p) (material p)))
   \<and> productRow lc p ''Tags''
       = Some (Str (join (js '', '') (filter_Boolean [color p, material p, fitLevel p])))
   \<and> productRow lc p ''Variant SKU'' = Some (Str (or_else (productId p) []))
   \<and> productRow lc p ''Variant Image'' = Some (Str (or_else (mainImage p) []))"
  by (simp add: productRow_def)

section \<open>Structured-array mode: the end-to-end example\<close>

text \<open>
  C2: in structured-array mode the one record \<open>{productId: "207", productName: "TUXEDO",
  mainImage: "http://x/1.jpg", thumbnailImages: ["http://x/2.jpg", "http://x/1.jpg"]}\<close>
  gives exactly two rows: the repeated thumbnail is dropped, the first row has Handle
  \<open>tuxedo\<close> and Image Position 1, the second has Image Src \<open>http://x/2.jpg\<close> and
  Image Position 2.
\<close>

theorem processJson_tuxedo:
  "map_sum id (map (\<lambda>row. (row ''Handle'', row ''Image Src'', row ''Image Position'')))
     (processJson toLowerCase (Data [tuxedo]))
   = Inr [(Some (Str (js ''tuxedo'')), Some (Str (js ''http://x/1.jpg'')), Some (Num 1)),
          (Some (Str (js ''tuxedo'')), Some (Str (js ''http://x/2.jpg'')), Some (Num 2))]"
  by code_simp

section \<open>Re-projection mode: forward fill\<close>

text \<open>
  C5: forward fill in re-projection mode carries the last non-blank Title and Vendor
  downward: the filled table has as many rows as the input, and in every row the Title
  (the Vendor) is the last non-blank Title (Vendor) of the rows down to it, the row
  itself included, or the initial value (the empty string in a run) when there is none.
  For the rows \<open>[{Title: "A", Vendor: "V"}, {Title: "", Vendor: ""}, {Title: "B",
  Vendor: ""}]\<close> the filled Title and Vendor are \<open>("A", "V")\<close>, \<open>("A", "V")\<close>,
  \<open>("B", "V")\<close>.
\<close>

theorem forward_fill_carries:
  "length (forward_fill (t, v, n) rows) = length rows
   \<and> (i < length rows
      \<longrightarrow> (forward_fill (t, v, n) rows ! i) ''Title''
            = Some (last_nonblank ''Title'' t (take (Suc i) rows))
          \<and> (forward_fill (t, v, n) rows ! i) ''Vendor''
            = Some (last_nonblank ''Vendor'' v (take (Suc i) rows)))
   \<and> map (\<lambda>row. (row ''Title'', row ''Vendor'')) (forward_fill ([], [], []) shopify_rows)
      = [(Some (js ''A''), Some (js ''V'')), (Some (js ''A''), Some (js ''V'')),
         (Some (js ''B''), Some (js ''V''))]"
proof -
  have a: "length (forward_fill (t, v, n) rows) = length rows"
    by (rule length_forward_fill)
  have b: "i < length rows
      \<longrightarrow> (forward_fill (t, v, n) rows ! i) ''Title''
            = Some (last_nonblank ''Title'' t (take (Suc i) rows))
          \<and> (forward_fill (t, v, n) rows ! i) ''Vendor''
            = Some (last_nonblank ''Vendor'' v (take (Suc i) rows))"
    by (simp add: forward_fill_nth)
  have c: "map (\<lambda>row. (row ''Title'', row ''Vendor'')) (forward_fill ([], [], []) shopify_rows)
      = [(Some (js ''A''), Some (js ''V'')), (Some (js ''A''), Some (js ''V'')),
         (Some (js ''B''), Some (js ''V''))]"
    by code_simp
  from a b c show ?thesis by blast
qed

theorem forward_fill_carries_witness:
  "length (forward_fill ([], [], []) shopify_rows4) = 4
   \<and> (forward_fill ([], [], []) shopify_rows4 ! 3) ''Title'' = Some (js ''B'')
   \<and> (forward_fill ([], [], []) shopify_rows4 ! 3) ''Vendor'' = Some (js ''V'')"
proof -
  note t = forward_fill_carries[where t = "[]" and v = "[]" and n = "[]" and rows = shopify_rows4
      and i = 3]
  have e0: "length shopify_rows4 = 4" by code_simp
  have e1: "last_nonblank ''Title'' [] (take (Suc 3) shopify_rows4) = js ''B''" by code_simp
  have e2: "last_nonblank ''Vendor'' [] (take (Suc 3) shopify_rows4) = js ''V''" by code_simp
  from t e0 e1 e2 show ?thesis by simp
qed

section \<open>The image list\<close>

text \<open>
  C1, as the code has it: in structured-array mode the image list used for row expansion
  is \<open>mainImage\<close> followed by the thumbnails, without the empty entries and without
  any thumbnail equal to an image earlier in the list, so no URL stands twice in the
  Image Src column of one product's row group. In flexible-tabular mode the Image Src
  values of an expanded record are the main image followed by the non-blank thumbnails
  in input order, and in scraper mode (for a record with a main image) the main image
  followed by the non-empty thumbnails: neither mode removes repetitions.
\<close>

theorem image_list_by_mode:
  "allImages p = first_occurrences (filter (\<lambda>u. u \<noteq> []) (image_candidates p))
   \<and> distinct (column ''Image Src'' (json_record_rows lc processed p))
   \<and> column ''Image Src'' (json_record_rows lc processed p)
       = (if hasImages p \<and> json_handle lc p \<notin> processed then map Str (allImages p) else [])
   \<and> (csv_record_rows lc seen r \<noteq> []
        \<longrightarrow> column ''Image Src'' (csv_record_rows lc seen r)
            = Str (or_else (getCol r ''main_image'') []) # map Str (csv_thumbs r))
   \<and> (s_mainImage d \<noteq> []
        \<longrightarrow> column ''Image Src'' (processUrlAndHtml lc d) = map Str (scraper_allImages d))"
proof -
  have a: "allImages p = first_occurrences (filter (\<lambda>u. u \<noteq> []) (image_candidates p))"
    by (rule allImages_eq)
  have c: "column ''Image Src'' (json_record_rows lc processed p)
       = (if hasImages p \<and> json_handle lc p \<notin> processed then map Str (allImages p) else [])"
    by (rule json_record_rows_Src)
  have b: "distinct (column ''Image Src'' (json_record_rows lc processed p))"
    using distinct_map_Str[OF distinct_allImages[of p]] by (simp add: c)
  have d: "csv_record_rows lc seen r \<noteq> []
        \<longrightarrow> column ''Image Src'' (csv_record_rows lc seen r)
            = Str (or_else (getCol r ''main_image'') []) # map Str (csv_thumbs r)"
    by (auto simp: csv_record_rows_cases csv_expansion_Src)
  have e: "s_mainImage d \<noteq> []
        \<longrightarrow> column ''Image Src'' (processUrlAndHtml lc d) = map Str (scraper_allImages d)"
  proof
    assume m: "s_mainImage d \<noteq> []"
    have "map Str (scraper_allImages d) = map Str (s_mainImage d # tl (scraper_allImages d))"
      by (simp only: scraper_allImages_main[OF m])
    then show "column ''Image Src'' (processUrlAndHtml lc d) = map Str (scraper_allImages d)"
      by (simp add: scraper_Src)
  qed
  from a b c d e show ?thesis by blast
qed

theorem image_list_by_mode_witness:
  "allImages tuxedo = [js ''http://x/1.jpg'', js ''http://x/2.jpg'']
   \<and> column ''Image Src'' (json_record_rows toLowerCase {} tuxedo)
       = [Str (js ''http://x/1.jpg''), Str (js ''http://x/2.jpg'')]
   \<and> column ''Image Src'' (csv_record_rows toLowerCase {} csv_tuxedo)
       = [Str (js ''http://x/1.jpg''), Str (js ''http://x/1.jpg'')]
   \<and> column ''Image Src'' (processUrlAndHtml toLowerCase scraped_tuxedo)
       = [Str (js ''http://x/1.jpg''), Str (js ''http://x/2.jpg''), Str (js ''http://x/1.jpg'')]"
proof -
  note t = image_list_by_mode[where p = tuxedo and lc = toLowerCase and processed = "{}"
      and seen = "{}" and r = csv_tuxedo and d = scraped_tuxedo]
  have e1: "first_occurrences (filter (\<lambda>u. u \<noteq> []) (image_candidates tuxedo))
            = [js ''http://x/1.jpg'', js ''http://x/2.jpg'']"
    by code_simp
  have e2: "hasImages tuxedo" by code_simp
  have e3: "\<not> csv_unprocessable toLowerCase csv_tuxedo" by code_simp
  have e4: "Str (or_else (getCol csv_tuxedo ''main_image'') []) # map Str (csv_thumbs csv_tuxedo)
            = [Str (js ''http://x/1.jpg''), Str (js ''http://x/1.jpg'')]"
    by code_simp
  have e5: "s_mainImage scraped_tuxedo \<noteq> []" by code_simp
  have e6: "map Str (scraper_allImages scraped_tuxedo)
            = [Str (js ''http://x/1.jpg''), Str (js ''http://x/2.jpg''), Str (js ''http://x/1.jpg'')]"
    by code_simp
  have e7: "csv_record_rows toLowerCase {} csv_tuxedo \<noteq> []"
    using e3 by (simp add: csv_record_rows_cases csv_expansion_nonempty)
  from t e1 e2 e4 e5 e6 e7 show ?thesis by simp
qed

text \<open>
  In flexible-tabular mode a thumbnail equal to the main image is kept: the same URL
  stands at Image Position 1 and 2.
\<close>

theorem csv_images_counterexample:
  "map_sum id (map (\<lambda>row. (row ''Image Src'', row ''Image Position'')))
     (processCsv toLowerCase [csv_tuxedo])
   = Inr [(Some (Str (js ''http://x/1.jpg'')), Some (Num 1)),
          (Some (Str (js ''http://x/1.jpg'')), Some (Num 2))]"
  by code_simp

section \<open>Runs without survivors\<close>

text \<open>
  C3, as the code has it: in flexible-tabular mode a non-empty input whose records are all
  rejected (no business key, or no handle can be made) fails with the error "no
  processable product data in the CSV file"; a run leaves no row exactly when every
  record is rejected for one of these two reasons, since a key counts as seen only
  once a record has been expanded. In re-projection mode a non-empty input
  whose rows all lack a Handle does not fail: the result is a null CSV string.
\<close>

theorem no_survivors_by_mode:
  "(inputRows \<noteq> [] \<and> (\<forall>r \<in> set inputRows. csv_unprocessable lc r)
      \<longrightarrow> processCsv lc inputRows = Inl NoProcessableCsvData)
   \<and> (concat (csv_groups lc {} inputRows) = []) = (\<forall>r \<in> set inputRows. csv_unprocessable lc r)
   \<and> (rows \<noteq> [] \<and> (\<forall>row \<in> set rows. \<not> nonblank (row ''Handle''))
      \<longrightarrow> shopify_processCsv rows = Inr None)"
proof -
  have a': "(concat (csv_groups lc {} inputRows) = [])
            = (\<forall>r \<in> set inputRows. csv_unprocessable lc r)"
    by (rule csv_groups_empty_iff)
  have a: "inputRows \<noteq> [] \<and> (\<forall>r \<in> set inputRows. csv_unprocessable lc r)
      \<longrightarrow> processCsv lc inputRows = Inl NoProcessableCsvData"
  proof
    assume h: "inputRows \<noteq> [] \<and> (\<forall>r \<in> set inputRows. csv_unprocessable lc r)"
    then have "concat (csv_groups lc {} inputRows) = []"
      by (intro csv_groups_unprocessable) simp
    then have "fst (foldl (csv_step lc) ([], {}) inputRows) = []"
      using csv_groups_concat[of lc "[]" "{}" inputRows] by simp
    then show "processCsv lc inputRows = Inl NoProcessableCsvData"
      using h by (simp add: processCsv_def)
  qed
  have b: "rows \<noteq> [] \<and> (\<forall>row \<in> set rows. \<not> nonblank (row ''Handle''))
      \<longrightarrow> shopify_processCsv rows = Inr None"
    by (auto simp: shopify_processCsv_def shopify_all_dropped)
  from a a' b show ?thesis by blast
qed

theorem no_survivors_by_mode_witness:
  "processCsv toLowerCase [csv_blank, csv_kanji] = Inl NoProcessableCsvData
   \<and> shopify_processCsv shopify_rows = Inr None"
proof -
  note t = no_survivors_by_mode[where inputRows = "[csv_blank, csv_kanji]" and lc = toLowerCase
      and rows = shopify_rows]
  have e1: "csv_unprocessable toLowerCase csv_blank" by code_simp
  have e2: "csv_unprocessable toLowerCase csv_kanji" by code_simp
  have e3: "\<forall>row \<in> set shopify_rows. \<not> nonblank (row ''Handle'')"
    by (simp add: shopify_rows_def nonblank_def)
  have e4: "shopify_rows \<noteq> []" by (simp add: shopify_rows_def)
  from t e1 e2 e3 e4 show ?thesis by simp
qed

text \<open>
  In re-projection mode three rows without Handle are all dropped, and the run returns a
  null CSV string instead of failing.
\<close>

theorem shopify_no_survivors_counterexample:
  "map_sum id (map_option length) (shopify_processCsv shopify_rows) = Inr None"
  by code_simp

section \<open>Business keys and handles\<close>

text \<open>
  C6, as the code has it: within one run of flexible-tabular mode no two expanded records
  share a business key (the Variant SKU values of the output are pairwise distinct):
  uniqueness is enforced on the business key, not on the Handle. The Handle of every
  row of a record is \<open>slugify("{name} - {id}")\<close>, or \<open>slugify(id)\<close> when that
  is empty, whatever was processed before.
\<close>

theorem csv_business_keys_unique:
  "distinct (column ''Variant SKU'' (rows_of (processCsv lc inputRows)))
   \<and> list_all (\<lambda>row. row ''Handle''
        = Some (Str (csv_handle lc r (or_else (getCol r ''product_id'') []))))
       (csv_record_rows lc seen r)"
proof -
  have "distinct (column ''Variant SKU'' (fst (foldl (csv_step lc) ([], {}) inputRows)))"
    by (rule csv_skus_invariant) (simp_all add: column_Nil)
  then have "distinct (column ''Variant SKU'' (rows_of (processCsv lc inputRows)))"
    using csv_groups_concat[of lc "[]" "{}" inputRows]
    by (simp add: rows_of_processCsv)
  then show ?thesis using csv_record_rows_Handle[of lc r seen] by blast
qed

text \<open>
  The business keys \<open>207/A\<close> and \<open>207-A\<close> differ, both records are expanded, and
  both get the Handle \<open>207-a\<close>.
\<close>

theorem csv_handle_collision_counterexample:
  "map_sum id (map (\<lambda>row. (row ''Handle'', row ''Variant SKU'')))
     (processCsv toLowerCase [csv_slash, csv_dash])
   = Inr [(Some (Str (js ''207-a'')), Some (Str (js ''207/A''))),
          (Some (Str (js ''207-a'')), Some (Str (js ''207-A'')))]"
  by code_simp

section \<open>Deduplication by business key\<close>

text \<open>
  C7, as the code has it: in flexible-tabular mode, of two records with the same resolved
  business key, once the earlier one has been expanded the later one is skipped
  entirely; the first record of a key is expanded when a handle can be made for it;
  what a record contributes is nothing or its own expansion, never a merge; a record
  whose key is blank, or for which no handle can be made, is skipped and the run goes
  on with the records after it.
\<close>

theorem csv_first_processable_wins:
  "(i < j \<and> j < length rs
      \<and> getCol (rs ! i) ''product_id'' = getCol (rs ! j) ''product_id''
      \<and> csv_groups lc {} rs ! i \<noteq> []
     \<longrightarrow> csv_groups lc {} rs ! j = [])
   \<and> (i < length rs \<and> \<not> csv_unprocessable lc (rs ! i)
      \<and> (\<forall>j < i. getCol (rs ! j) ''product_id'' \<noteq> getCol (rs ! i) ''product_id'')
     \<longrightarrow> csv_groups lc {} rs ! i = csv_expansion lc (rs ! i))
   \<and> (i < length rs
     \<longrightarrow> csv_groups lc {} rs ! i = [] \<or> csv_groups lc {} rs ! i = csv_expansion lc (rs ! i))
   \<and> (csv_unprocessable lc r
     \<longrightarrow> csv_groups lc seen (r # rs) = [] # csv_groups lc seen rs)
   \<and> rows_of (processCsv lc rs) = concat (csv_groups lc {} rs)"
proof -
  have a: "i < j \<and> j < length rs
      \<and> getCol (rs ! i) ''product_id'' = getCol (rs ! j) ''product_id''
      \<and> csv_groups lc {} rs ! i \<noteq> []
     \<longrightarrow> csv_groups lc {} rs ! j = []"
    using csv_groups_first_wins[of i j rs lc "{}"] by blast
  have b: "i < length rs \<and> \<not> csv_unprocessable lc (rs ! i)
      \<and> (\<forall>j < i. getCol (rs ! j) ''product_id'' \<noteq> getCol (rs ! i) ''product_id'')
     \<longrightarrow> csv_groups lc {} rs ! i = csv_expansion lc (rs ! i)"
    using csv_groups_first_expanded[of i rs lc] by blast
  have c: "i < length rs
     \<longrightarrow> csv_groups lc {} rs ! i = [] \<or> csv_groups lc {} rs ! i = csv_expansion lc (rs ! i)"
    using csv_groups_not_merged[of i rs lc "{}"] by blast
  have d: "csv_unprocessable lc r
     \<longrightarrow> csv_groups lc seen (r # rs) = [] # csv_groups lc seen rs"
    by (simp add: csv_record_rows_cases csv_seen_cases)
  have e: "rows_of (processCsv lc rs) = concat (csv_groups lc {} rs)"
    by (rule rows_of_processCsv)
  from a b c d e show ?thesis by blast
qed

theorem csv_first_processable_wins_witness:
  "csv_groups toLowerCase {} [csv_tuxedo, csv_blank, csv_tuxedo] ! 0
     = csv_expansion toLowerCase csv_tuxedo
   \<and> csv_groups toLowerCase {} [csv_tuxedo, csv_blank, csv_tuxedo] ! 2 = []
   \<and> csv_groups toLowerCase {} (csv_blank # [csv_tuxedo, csv_blank, csv_tuxedo])
      = [] # csv_groups toLowerCase {} [csv_tuxedo, csv_blank, csv_tuxedo]
   \<and> rows_of (processCsv toLowerCase [csv_tuxedo, csv_blank, csv_tuxedo])
      = concat (csv_groups toLowerCase {} [csv_tuxedo, csv_blank, csv_tuxedo])"
proof -
  let ?rs = "[csv_tuxedo, csv_blank, csv_tuxedo]"
  note t0 = csv_first_processable_wins[where i = 0 and j = 2 and rs = ?rs and lc = toLowerCase
      and r = csv_blank and seen = "{}"]
  have e1: "\<not> csv_unprocessable toLowerCase csv_tuxedo" by code_simp
  have e2: "csv_unprocessable toLowerCase csv_blank" by code_simp
  have g0: "csv_groups toLowerCase {} ?rs ! 0 = csv_expansion toLowerCase csv_tuxedo"
    using t0 e1 by simp
  then have "csv_groups toLowerCase {} ?rs ! 0 \<noteq> []"
    by (simp add: csv_expansion_nonempty)
  then have g2: "csv_groups toLowerCase {} ?rs ! 2 = []"
    using t0 by simp
  from g0 g2 t0 e2 show ?thesis by blast
qed

text \<open>
  Two records with the same business key (two kanji): the first has no name, so no
  handle can be made and it is skipped without marking the key; the second, with a
  name, is expanded.
\<close>

theorem csv_later_duplicate_counterexample:
  "getCol csv_kanji ''product_id'' = getCol csv_kanji_dress ''product_id''
   \<and> map length (csv_groups toLowerCase {} [csv_kanji, csv_kanji_dress]) = [0, 1]
   \<and> map_sum id (map (\<lambda>row. (row ''Title'', row ''Variant SKU'')))
        (processCsv toLowerCase [csv_kanji, csv_kanji_dress])
      = Inr [(Some (Str (js ''Dress - '' @ [26085, 26412])), Some (Str [26085, 26412]))]"
  by code_simp

section \<open>Products without images\<close>

text \<open>
  C8, as the code has it: for a product whose collected image list is empty exactly one
  row, the primary row, is emitted, and its Image Src is blank, in every mode that
  expands rows (structured-array mode leaves it unset, flexible-tabular and scraper
  mode set it to the empty string). In structured-array mode its Image Position is
  blank as well.
\<close>

theorem no_image_rows:
  "(allImages p = []
      \<longrightarrow> json_record_rows lc processed p = [productRow lc p]
          \<and> productRow lc p ''Image Src'' = None
          \<and> productRow lc p ''Image Position'' = None)
   \<and> (getCol r ''main_image'' = None \<and> csv_thumbs r = [] \<and> csv_record_rows lc seen r \<noteq> []
      \<longrightarrow> length (csv_record_rows lc seen r) = 1
          \<and> column ''Image Src'' (csv_record_rows lc seen r) = [Str []])
   \<and> (scraper_allImages d = []
      \<longrightarrow> processUrlAndHtml lc d = [scraper_mainVariantRow lc d]
          \<and> scraper_mainVariantRow lc d ''Image Src'' = Some (Str []))"
proof -
  have a: "allImages p = []
      \<longrightarrow> json_record_rows lc processed p = [productRow lc p]
          \<and> productRow lc p ''Image Src'' = None
          \<and> productRow lc p ''Image Position'' = None"
    by (simp add: json_record_rows_no_images productRow_no_Src productRow_no_Position)
  have b: "getCol r ''main_image'' = None \<and> csv_thumbs r = [] \<and> csv_record_rows lc seen r \<noteq> []
      \<longrightarrow> length (csv_record_rows lc seen r) = 1
          \<and> column ''Image Src'' (csv_record_rows lc seen r) = [Str []]"
  proof
    assume h: "getCol r ''main_image'' = None \<and> csv_thumbs r = []
        \<and> csv_record_rows lc seen r \<noteq> []"
    then have rows: "csv_record_rows lc seen r = csv_expansion lc r"
      by (auto simp: csv_record_rows_cases split: if_splits)
    have "length (csv_expansion lc r) = 1"
      using h by (simp add: csv_expansion_def sub_image_rows_Nil)
    moreover have "column ''Image Src'' (csv_expansion lc r) = [Str []]"
      using h by (simp add: csv_expansion_Src or_else_def)
    ultimately show "length (csv_record_rows lc seen r) = 1
          \<and> column ''Image Src'' (csv_record_rows lc seen r) = [Str []]"
      by (simp only: rows simp_thms)
  qed
  have c: "scraper_allImages d = []
      \<longrightarrow> processUrlAndHtml lc d = [scraper_mainVariantRow lc d]
          \<and> scraper_mainVariantRow lc d ''Image Src'' = Some (Str [])"
    using scraper_no_images[of d lc] scraper_no_images_main[of d]
    by (simp add: scraper_mainVariantRow_Src)
  from a b c show ?thesis by blast
qed

theorem no_image_rows_witness:
  "json_record_rows toLowerCase {} tuxedo_plain = [productRow toLowerCase tuxedo_plain]
   \<and> productRow toLowerCase tuxedo_plain ''Image Src'' = None
   \<and> productRow toLowerCase tuxedo_plain ''Image Position'' = None
   \<and> length (csv_record_rows toLowerCase {} csv_plain) = 1
   \<and> column ''Image Src'' (csv_record_rows toLowerCase {} csv_plain) = [Str []]
   \<and> processUrlAndHtml toLowerCase scraped_plain = [scraper_mainVariantRow toLowerCase scraped_plain]
   \<and> scraper_mainVariantRow toLowerCase scraped_plain ''Image Src'' = Some (Str [])"
proof -
  note t = no_image_rows[where p = tuxedo_plain and lc = toLowerCase and processed = "{}"
      and r = csv_plain and seen = "{}" and d = scraped_plain]
  have e1: "allImages tuxedo_plain = []" by code_simp
  have e2: "getCol csv_plain ''main_image'' = None" by code_simp
  have e3: "csv_thumbs csv_plain = []" by code_simp
  have e4: "\<not> csv_unprocessable toLowerCase csv_plain" by code_simp
  have e5: "csv_record_rows toLowerCase {} csv_plain \<noteq> []"
    using e4 by (simp add: csv_record_rows_cases csv_expansion_nonempty)
  have e6: "scraper_allImages scraped_plain = []" by code_simp
  from t e1 e2 e3 e5 e6 show ?thesis by blast
qed

text \<open>
  In flexible-tabular mode a record without any image gives one row whose Image Src is
  the empty string and whose Image Position is 1, not blank.
\<close>

theorem csv_no_image_counterexample:
  "csv_thumbs csv_plain = [] \<and> getCol csv_plain ''main_image'' = None
   \<and> map_sum id (map (\<lambda>row. (row ''Image Src'', row ''Image Position'')))
        (processCsv toLowerCase [csv_plain])
      = Inr [(Some (Str []), Some (Num 1))]"
  by code_simp

section \<open>Determinism of the handle\<close>

text \<open>
  C9: handle generation is deterministic. In extracted-single-record mode the Handle
  does not depend on the clock (\<open>Date.now()\<close> is never reached, since the name
  defaults to "product"); in structured-array, flexible-tabular and scraper mode every
  row of a record carries a Handle computed from the record alone, whatever the run
  has seen before.
\<close>

theorem handle_deterministic:
  "shopifyData now1 lc e ''Handle'' = shopifyData now2 lc e ''Handle''
   \<and> list_all (\<lambda>row. row ''Handle'' = Some (Str (json_handle lc p)))
       (json_record_rows lc processed p)
   \<and> list_all (\<lambda>row. row ''Handle''
        = Some (Str (csv_handle lc r (or_else (getCol r ''product_id'') []))))
       (csv_record_rows lc seen r)
   \<and> list_all (\<lambda>row. row ''Handle'' = Some (Str (scraper_handle lc d)))
       (processUrlAndHtml lc d)"
proof -
  have "shopifyData now1 lc e ''Handle'' = shopifyData now2 lc e ''Handle''"
    using extracted_handle_clock[of now1 lc e now2] by (simp only: shopifyData_Handle)
  then show ?thesis
    using json_record_rows_Handle[of lc p processed] csv_record_rows_Handle[of lc r seen]
      scraper_Handle[of lc d]
    by blast
qed

section \<open>A handle that already has images\<close>

text \<open>
  C10, as the code has it: \<open>processedHandlesForImages\<close> holds the Handles of the
  earlier records that had images. When a record's Handle is the Handle of an earlier
  record that had images, the record is not discarded: its primary row (with Title,
  Body, Tags and the Variant fields) is appended, without Image Src and Image Position,
  and no continuation row follows.
\<close>

theorem seen_handle_keeps_row:
  "snd (foldl (json_step lc) ([], {}) earlier) = json_handle lc ` {q \<in> set earlier. hasImages q}
   \<and> (q \<in> set earlier \<and> hasImages q \<and> json_handle lc q = json_handle lc p
      \<longrightarrow> fst (foldl (json_step lc) ([], {}) (earlier @ [p]))
            = fst (foldl (json_step lc) ([], {}) earlier) @ [productRow lc p]
          \<and> productRow lc p ''Image Src'' = None
          \<and> productRow lc p ''Image Position'' = None
          \<and> productRow lc p ''Title'' = Some (Str (or_else (productName p) []))
          \<and> productRow lc p ''Body (HTML)''
              = Some (Str (html_body (description p) (caution p) (material p)))
          \<and> productRow lc p ''Tags''
              = Some (Str (join (js '', '') (filter_Boolean [color p, material p, fitLevel p])))
          \<and> productRow lc p ''Variant SKU'' = Some (Str (or_else (productId p) [])))"
proof -
  have s: "snd (foldl (json_step lc) ([], {}) earlier)
           = json_handle lc ` {q \<in> set earlier. hasImages q}"
    using json_processed_set[of lc "([], {})" earlier] by simp
  have "q \<in> set earlier \<and> hasImages q \<and> json_handle lc q = json_handle lc p
      \<longrightarrow> fst (foldl (json_step lc) ([], {}) (earlier @ [p]))
            = fst (foldl (json_step lc) ([], {}) earlier) @ [productRow lc p]"
  proof
    assume h: "q \<in> set earlier \<and> hasImages q \<and> json_handle lc q = json_handle lc p"
    then have "json_handle lc p \<in> json_handle lc ` {q \<in> set earlier. hasImages q}"
      by (metis (mono_tags, lifting) imageI mem_Collect_eq)
    then have "json_handle lc p \<in> snd (foldl (json_step lc) ([], {}) earlier)"
      by (simp only: s)
    then have "json_record_rows lc (snd (foldl (json_step lc) ([], {}) earlier)) p
               = [productRow lc p]"
      by (rule json_record_rows_processed)
    then show "fst (foldl (json_step lc) ([], {}) (earlier @ [p]))
            = fst (foldl (json_step lc) ([], {}) earlier) @ [productRow lc p]"
      by (simp only: json_foldl_snoc fst_json_step)
  qed
  then show ?thesis
    using s productRow_fields[of lc p] productRow_no_Src[of lc p] productRow_no_Position[of lc p]
    by blast
qed

theorem seen_handle_keeps_row_witness:
  "hasImages tuxedo_again
   \<and> allImages tuxedo_again = [js ''http://x/1.jpg'', js ''http://x/2.jpg'']
   \<and> fst (foldl (json_step toLowerCase) ([], {}) ([tuxedo] @ [tuxedo_again]))
     = fst (foldl (json_step toLowerCase) ([], {}) [tuxedo]) @ [productRow toLowerCase tuxedo_again]
   \<and> productRow toLowerCase tuxedo_again ''Image Src'' = None
   \<and> productRow toLowerCase tuxedo_again ''Image Position'' = None
   \<and> productRow toLowerCase tuxedo_again ''Variant SKU'' = Some (Str (js ''208''))
   \<and> map_sum id (map (\<lambda>row. (row ''Variant SKU'', row ''Image Src'', row ''Image Position'')))
        (processJson toLowerCase (Data ([tuxedo] @ [tuxedo_again])))
      = Inr [(Some (Str (js ''207'')), Some (Str (js ''http://x/1.jpg'')), Some (Num 1)),
             (None, Some (Str (js ''http://x/2.jpg'')), Some (Num 2)),
             (Some (Str (js ''208'')), None, None)]"
proof -
  note t = seen_handle_keeps_row[where lc = toLowerCase and earlier = "[tuxedo]"
      and q = tuxedo and p = tuxedo_again]
  have e1: "hasImages tuxedo" by code_simp
  have e2: "json_handle toLowerCase tuxedo = json_handle toLowerCase tuxedo_again" by code_simp
  have e3: "or_else (productId tuxedo_again) [] = js ''208''" by code_simp
  have e4: "hasImages tuxedo_again" by code_simp
  have e5: "allImages tuxedo_again = [js ''http://x/1.jpg'', js ''http://x/2.jpg'']" by code_simp
  have e6: "map_sum id (map (\<lambda>row. (row ''Variant SKU'', row ''Image Src'', row ''Image Position'')))
        (processJson toLowerCase (Data ([tuxedo] @ [tuxedo_again])))
      = Inr [(Some (Str (js ''207'')), Some (Str (js ''http://x/1.jpg'')), Some (Num 1)),
             (None, Some (Str (js ''http://x/2.jpg'')), Some (Num 2)),
             (Some (Str (js ''208'')), None, None)]"
    by code_simp
  from t e1 e2 e3 e4 e5 e6 show ?thesis by simp
qed

text \<open>
  The second record produces the Handle of the first, which had no image: the second
  record gets Image Src, Image Position and a continuation row.
\<close>

theorem json_seen_handle_counterexample:
  "json_handle toLowerCase tuxedo_plain = json_handle toLowerCase tuxedo
   \<and> map_sum id (map (\<lambda>row. (row ''Variant SKU'', row ''Image Src'', row ''Image Position'')))
        (processJson toLowerCase (Data [tuxedo_plain, tuxedo]))
      = Inr [(Some (Str (js ''206'')), None, None),
             (Some (Str (js ''207'')), Some (Str (js ''http://x/1.jpg'')), Some (Num 1)),
             (None, Some (Str (js ''http://x/2.jpg'')), Some (Num 2))]"
  by code_simp

end
